theory Spec2Isabelle
  imports Main "HOL-Library.Word"
begin

unbundle bit_operations_syntax

section \<open>Address primitives (ia32/memory.h)\<close>

text \<open>
  Modelled from the spec: the enumeration \<open>pml\<close> is declared in \<open>paging.h\<close>, which is not
  among the sources. The spec gives its encoding as \<open>0 = pt, 1 = pd, 2 = pdpt, 3 = pml4\<close>;
  \<open>pml_value\<close> is the \<open>static_cast<uint8_t>(level)\<close> of \<open>pa_t::index\<close>.
\<close>

datatype pml = pt | pd | pdpt | pml4

fun pml_value :: "pml \<Rightarrow> 8 word" where
  "pml_value pt = 0"
| "pml_value pd = 1"
| "pml_value pdpt = 2"
| "pml_value pml4 = 3"

definition page_shift :: nat where
  "page_shift = 12"

text \<open>
  \<open>pa_t::index\<close> and \<open>va_t::index\<close>: the 64-bit value is shifted right by
  \<open>page_shift + level * 9\<close>, masked with \<open>(1 << 9) - 1\<close> and converted to a (32-bit)
  \<open>int\<close>. Both classes hold their address in the member \<open>value_\<close>, a \<open>uint64_t\<close> (\<open>addr\<close> here).
\<close>

definition pa_index :: "64 word \<Rightarrow> pml \<Rightarrow> int" where
  "pa_index addr level =
     (let result = drop_bit (page_shift + unat (pml_value level) * 9) addr;
          result = result AND (push_bit 9 1 - 1)
      in sint (ucast result :: 32 word))"

definition va_index :: "64 word \<Rightarrow> pml \<Rightarrow> int" where
  "va_index addr level =
     (let result = drop_bit (page_shift + unat (pml_value level) * 9) addr;
          result = result AND (push_bit 9 1 - 1)
      in sint (ucast result :: 32 word))"

section \<open>The VMCS and the vCPU state (vcpu.inl)\<close>

text \<open>
  The VMCS fields that the modelled accessors name. The hardware structure is a store
  from field to value; every field holds at most 64 bits.
\<close>

datatype vmcs_field =
    ctrl_pin_based_vm_execution_controls
  | ctrl_processor_based_vm_execution_controls
  | ctrl_secondary_processor_based_vm_execution_controls
  | ctrl_vmentry_controls
  | ctrl_vmexit_controls
  | ctrl_exception_bitmap
  | ctrl_vmentry_interruption_info
  | ctrl_vmentry_exception_error_code
  | ctrl_vmentry_instruction_length
  | vmexit_instruction_length
  | vmexit_idt_vectoring_info
  | vmexit_idt_vectoring_error_code
  | guest_interruptibility_state
  | host_gdtr_base
  | host_idtr_base

text \<open>
  \<open>hvpp::interrupt_info_t\<close>, the pending interrupt record: the interruption-information
  doubleword \<open>info_\<close>, the error code \<open>error_code_\<close> and the signed \<open>int\<close>
  \<open>rip_adjust_\<close> (kept as 32 bits, read with \<open>sint\<close>). The members are written
  without the trailing underscore; the accessor \<open>error_code()\<close> returns the member and is
  the field \<open>error_code\<close> itself.
\<close>

record interrupt_info_t =
  info :: "32 word"
  error_code :: "32 word"
  rip_adjust :: "32 word"

text \<open>
  Modelled from the spec: the bit-field \<open>vmx::interrupt_info_t\<close> and the accessors
  \<open>valid()\<close>, \<open>vector()\<close>, \<open>type()\<close>, \<open>error_code_valid()\<close>, \<open>error_code()\<close> of the record
  are declared in headers that are not among the sources. The spec names the parts of the
  doubleword (valid bit, vector, type, deliver-error-code bit); their positions are the
  architectural ones: vector in bits 7:0, type in bits 10:8, deliver-error-code in bit 11,
  valid in bit 31.
\<close>

definition valid :: "interrupt_info_t \<Rightarrow> bool" where
  "valid i = bit (info i) 31"

definition vector :: "interrupt_info_t \<Rightarrow> 8 word" where
  "vector i = ucast (info i)"

definition type :: "interrupt_info_t \<Rightarrow> 3 word" where
  "type i = ucast (drop_bit 8 (info i))"

definition error_code_valid :: "interrupt_info_t \<Rightarrow> bool" where
  "error_code_valid i = bit (info i) 11"

text \<open>
  Modelled from the spec: the enumerations \<open>vmx::interrupt_type\<close> and \<open>exception_vector\<close>
  are declared in headers that are not among the sources. The spec gives the vectors
  (8 = #DF, 10 = invalid TSS, 11 = segment not present, 12 = stack-segment fault, 13 = #GP,
  14 = #PF, 17 = #AC, and int3 as vector 3); the type encodings are the architectural ones.
\<close>

definition external :: "3 word" where "external = 0"
definition nmi :: "3 word" where "nmi = 2"
definition hardware_exception :: "3 word" where "hardware_exception = 3"
definition software :: "3 word" where "software = 4"
definition privileged_exception :: "3 word" where "privileged_exception = 5"
definition software_exception :: "3 word" where "software_exception = 6"
definition other_event :: "3 word" where "other_event = 7"

definition breakpoint :: "8 word" where "breakpoint = 3"
definition double_fault :: "8 word" where "double_fault = 8"
definition invalid_tss :: "8 word" where "invalid_tss = 10"
definition segment_not_present :: "8 word" where "segment_not_present = 11"
definition stack_segment_fault :: "8 word" where "stack_segment_fault = 12"
definition general_protection :: "8 word" where "general_protection = 13"
definition page_fault :: "8 word" where "page_fault = 14"
definition alignment_check :: "8 word" where "alignment_check = 17"

text \<open>
  The state of one vCPU as far as the modelled functions touch it: the current VMCS, the
  saved guest RFLAGS of the exit context, and the pending-interrupt ring with its head
  index and count. The capacity \<open>pending_interrupt_queue_size\<close> is a constant of the
  class declaration, which is not among the sources; it is the length of the array
  \<open>pending_interrupt_\<close>. Head and count are natural numbers: under the assertions of the
  code they never leave \<open>[0, queue_size]\<close>, so no machine arithmetic wraps.

  \<open>vmwrites\<close> is the trace of all \<open>vmwrite\<close> calls, oldest first. It is kept so that
  "field F is (not) written" can be stated; no modelled function reads it.
  \<open>vmx_capability\<close> holds, for each of the five VMX controls, the two masks of its
  capability MSR, which \<open>vmx::adjust\<close> reads.
\<close>

datatype vmx_ctl = pinbased_ctls | procbased_ctls | procbased_ctls2 | entry_ctls | exit_ctls

record vmx_ctl_masks =
  fixed0_mask :: "64 word"
  fixed1_mask :: "64 word"

record vcpu_t =
  vmcs :: "vmcs_field \<Rightarrow> 64 word"
  vmwrites :: "(vmcs_field \<times> 64 word) list"
  vmx_capability :: "vmx_ctl \<Rightarrow> vmx_ctl_masks"
  exit_context_rflags :: "64 word"
  pending_interrupt :: "interrupt_info_t list"
  pending_interrupt_first :: nat
  pending_interrupt_count :: nat

definition pending_interrupt_queue_size :: "vcpu_t \<Rightarrow> nat" where
  "pending_interrupt_queue_size s = length (pending_interrupt s)"

text \<open>
  Modelled from the spec: \<open>vmx::vmread\<close> and \<open>vmx::vmwrite\<close> are declared in a header that
  is not among the sources. The spec describes them as raw VMCS access, where a field that
  is written reads back the value written.
\<close>

definition vmread :: "vmcs_field \<Rightarrow> vcpu_t \<Rightarrow> 64 word" where
  "vmread f s = vmcs s f"

definition vmwrite :: "vmcs_field \<Rightarrow> 64 word \<Rightarrow> vcpu_t \<Rightarrow> vcpu_t" where
  "vmwrite f v s = s\<lparr>vmcs := (vmcs s)(f := v), vmwrites := vmwrites s @ [(f, v)]\<rparr>"

text \<open>
  Modelled from the spec: the macro \<open>hvpp_assert\<close> is not among the sources. The spec's
  error policy for a programming error is "assertion -- halt", so a failed assertion ends
  the call with the error \<open>Assertion_failed\<close>. An array access outside the ring, which is
  undefined in C++ and which the code never checks, ends it with \<open>Out_of_range\<close>.
\<close>

datatype error = Assertion_failed | Out_of_range

subsection \<open>Accessors\<close>

definition entry_instruction_length_set :: "32 word \<Rightarrow> vcpu_t \<Rightarrow> vcpu_t" where
  "entry_instruction_length_set instruction_length s =
     vmwrite ctrl_vmentry_instruction_length (ucast instruction_length) s"

definition entry_interruption_info_set :: "32 word \<Rightarrow> vcpu_t \<Rightarrow> vcpu_t" where
  "entry_interruption_info_set ii s =
     vmwrite ctrl_vmentry_interruption_info (ucast ii) s"

definition entry_interruption_error_code_set :: "32 word \<Rightarrow> vcpu_t \<Rightarrow> vcpu_t" where
  "entry_interruption_error_code_set ec s =
     vmwrite ctrl_vmentry_exception_error_code (ucast ec) s"

definition exit_instruction_length :: "vcpu_t \<Rightarrow> 32 word" where
  "exit_instruction_length s = ucast (vmread vmexit_instruction_length s)"

definition exit_idt_vectoring_info :: "vcpu_t \<Rightarrow> 32 word" where
  "exit_idt_vectoring_info s = ucast (vmread vmexit_idt_vectoring_info s)"

definition exit_idt_vectoring_error_code :: "vcpu_t \<Rightarrow> 32 word" where
  "exit_idt_vectoring_error_code s = ucast (vmread vmexit_idt_vectoring_error_code s)"

definition guest_interruptibility_state_get :: "vcpu_t \<Rightarrow> 32 word" where
  "guest_interruptibility_state_get s = ucast (vmread guest_interruptibility_state s)"

text \<open>
  Modelled from the spec: \<open>vmx::adjust\<close> is declared in a header that is not among the
  sources. The spec gives \<open>written = (requested | fixed0_mask) & fixed1_mask\<close>, with the
  masks read from the VMX capability MSR of the control that is written.
\<close>

definition adjust :: "vmx_ctl \<Rightarrow> 64 word \<Rightarrow> vcpu_t \<Rightarrow> 64 word" where
  "adjust c requested s =
     (requested OR fixed0_mask (vmx_capability s c)) AND fixed1_mask (vmx_capability s c)"

definition pin_based_controls :: "vcpu_t \<Rightarrow> 64 word" where
  "pin_based_controls s = vmread ctrl_pin_based_vm_execution_controls s"

definition pin_based_controls_set :: "64 word \<Rightarrow> vcpu_t \<Rightarrow> vcpu_t" where
  "pin_based_controls_set controls s =
     vmwrite ctrl_pin_based_vm_execution_controls (adjust pinbased_ctls controls s) s"

definition processor_based_controls :: "vcpu_t \<Rightarrow> 64 word" where
  "processor_based_controls s = vmread ctrl_processor_based_vm_execution_controls s"

definition processor_based_controls_set :: "64 word \<Rightarrow> vcpu_t \<Rightarrow> vcpu_t" where
  "processor_based_controls_set controls s =
     vmwrite ctrl_processor_based_vm_execution_controls (adjust procbased_ctls controls s) s"

definition processor_based_controls2 :: "vcpu_t \<Rightarrow> 64 word" where
  "processor_based_controls2 s = vmread ctrl_secondary_processor_based_vm_execution_controls s"

definition processor_based_controls2_set :: "64 word \<Rightarrow> vcpu_t \<Rightarrow> vcpu_t" where
  "processor_based_controls2_set controls s =
     vmwrite ctrl_secondary_processor_based_vm_execution_controls
       (adjust procbased_ctls2 controls s) s"

definition vm_entry_controls :: "vcpu_t \<Rightarrow> 64 word" where
  "vm_entry_controls s = vmread ctrl_vmentry_controls s"

definition vm_entry_controls_set :: "64 word \<Rightarrow> vcpu_t \<Rightarrow> vcpu_t" where
  "vm_entry_controls_set controls s =
     vmwrite ctrl_vmentry_controls (adjust entry_ctls controls s) s"

definition vm_exit_controls :: "vcpu_t \<Rightarrow> 64 word" where
  "vm_exit_controls s = vmread ctrl_vmexit_controls s"

definition vm_exit_controls_set :: "64 word \<Rightarrow> vcpu_t \<Rightarrow> vcpu_t" where
  "vm_exit_controls_set controls s =
     vmwrite ctrl_vmexit_controls (adjust exit_ctls controls s) s"

definition exception_bitmap :: "vcpu_t \<Rightarrow> 32 word" where
  "exception_bitmap s = ucast (vmread ctrl_exception_bitmap s)"

definition exception_bitmap_set :: "32 word \<Rightarrow> vcpu_t \<Rightarrow> vcpu_t" where
  "exception_bitmap_set bitmap s = vmwrite ctrl_exception_bitmap (ucast bitmap) s"

text \<open>
  \<open>host_gdtr\<close> and \<open>host_idtr\<close>. The structures \<open>gdtr_t\<close> and \<open>idtr_t\<close> (not among the
  sources) have the two members the accessors name, \<open>base_address\<close> and \<open>limit\<close>.
\<close>

record gdtr_t =
  base_address :: "64 word"
  limit :: "16 word"

type_synonym idtr_t = gdtr_t

definition host_gdtr :: "vcpu_t \<Rightarrow> gdtr_t" where
  "host_gdtr s = \<lparr>base_address = vmread host_gdtr_base s, limit = 0xffff\<rparr>"

definition host_gdtr_set :: "gdtr_t \<Rightarrow> vcpu_t \<Rightarrow> vcpu_t" where
  "host_gdtr_set gdtr s = vmwrite host_gdtr_base (base_address gdtr) s"

definition host_idtr :: "vcpu_t \<Rightarrow> idtr_t" where
  "host_idtr s = \<lparr>base_address = vmread host_idtr_base s, limit = 0xffff\<rparr>"

definition host_idtr_set :: "idtr_t \<Rightarrow> vcpu_t \<Rightarrow> vcpu_t" where
  "host_idtr_set idtr s = vmwrite host_idtr_base (base_address idtr) s"

text \<open>
  Modelled from the spec: the bit-fields \<open>rflags_t\<close> and \<open>msr::vmx_procbased_ctls_t\<close> are
  declared in headers that are not among the sources. The spec names RFLAGS.IF and
  \<open>processor_based_controls.interrupt_window_exiting\<close>; their positions are the
  architectural ones, bit 9 of RFLAGS and bit 2 of the primary processor-based controls.
\<close>

definition interrupt_enable_flag :: "64 word \<Rightarrow> bool" where
  "interrupt_enable_flag rflags = bit rflags 9"

definition interrupt_window_exiting :: "64 word \<Rightarrow> bool" where
  "interrupt_window_exiting controls = bit controls 2"

definition interrupt_window_exiting_set :: "bool \<Rightarrow> 64 word \<Rightarrow> 64 word" where
  "interrupt_window_exiting_set b controls =
     (if b then set_bit 2 controls else unset_bit 2 controls)"

subsection \<open>Interrupt injection\<close>

text \<open>
  \<open>vcpu_t::interrupt_inject_force\<close>. The first switch (on the vector, for hardware
  exceptions) is \<open>inject_error_code\<close>, the second (on the type) is
  \<open>inject_instruction_length\<close>; the function writes the interruption information and, for
  a valid event, runs the two in that order.
\<close>

definition inject_error_code :: "interrupt_info_t \<Rightarrow> vcpu_t \<Rightarrow> error + vcpu_t" where
  "inject_error_code interrupt s =
     (if type interrupt = hardware_exception then
        (if vector interrupt = invalid_tss \<or>
            vector interrupt = segment_not_present \<or>
            vector interrupt = stack_segment_fault \<or>
            vector interrupt = general_protection \<or>
            vector interrupt = page_fault
         then
           (if error_code_valid interrupt
            then Inr (entry_interruption_error_code_set (error_code interrupt) s)
            else Inl Assertion_failed)
         else if vector interrupt = double_fault \<or>
                 vector interrupt = alignment_check
         then
           (if error_code_valid interrupt \<and> error_code interrupt = 0
            then Inr (entry_interruption_error_code_set (error_code interrupt) s)
            else Inl Assertion_failed)
         else Inr s)
      else Inr s)"

definition inject_instruction_length :: "interrupt_info_t \<Rightarrow> vcpu_t \<Rightarrow> vcpu_t" where
  "inject_instruction_length interrupt s =
     (if type interrupt = software \<or>
         type interrupt = privileged_exception \<or>
         type interrupt = software_exception
      then
        (let adjust_len = (if rip_adjust interrupt = - 1
                           then exit_instruction_length s
                           else rip_adjust interrupt)
         in if 0 <s adjust_len
            then entry_instruction_length_set adjust_len s
            else s)
      else s)"

definition interrupt_inject_force :: "interrupt_info_t \<Rightarrow> vcpu_t \<Rightarrow> error + vcpu_t" where
  "interrupt_inject_force interrupt s =
     (let s1 = entry_interruption_info_set (info interrupt) s
      in if valid interrupt
         then (case inject_error_code interrupt s1 of
                 Inl e \<Rightarrow> Inl e
               | Inr s2 \<Rightarrow> Inr (inject_instruction_length interrupt s2))
         else Inr s1)"

text \<open>
  \<open>vcpu_t::idt_vectoring_info\<close>. The function starts from a default-constructed record;
  the default constructor is not among the sources, so the record it builds is the
  parameter \<open>result0\<close>.
\<close>

definition idt_vectoring_info :: "interrupt_info_t \<Rightarrow> vcpu_t \<Rightarrow> interrupt_info_t" where
  "idt_vectoring_info result0 s =
     (let result = result0\<lparr>info := exit_idt_vectoring_info s\<rparr>
      in if valid result
         then (let result = (if error_code_valid result
                             then result\<lparr>error_code := exit_idt_vectoring_error_code s\<rparr>
                             else result)
               in result\<lparr>rip_adjust := exit_instruction_length s\<rparr>)
         else result)"

text \<open>
  \<open>vcpu_t::interrupt_inject\<close>. The result is the returned \<open>bool\<close> with the new state.
  \<open>push_front\<close> and \<open>push_back\<close> are the two branches on \<open>first\<close>.
\<close>

definition push_front :: "interrupt_info_t \<Rightarrow> vcpu_t \<Rightarrow> error + vcpu_t" where
  "push_front interrupt s =
     (let head = (if pending_interrupt_first s = 0
                  then pending_interrupt_queue_size s - 1
                  else pending_interrupt_first s - 1)
      in if head < pending_interrupt_queue_size s
         then Inr (s\<lparr>pending_interrupt := (pending_interrupt s)[head := interrupt],
                      pending_interrupt_first := head,
                      pending_interrupt_count := pending_interrupt_count s + 1\<rparr>)
         else Inl Out_of_range)"

definition push_back :: "interrupt_info_t \<Rightarrow> vcpu_t \<Rightarrow> error + vcpu_t" where
  "push_back interrupt s =
     (let index = (pending_interrupt_first s + pending_interrupt_count s)
                    mod pending_interrupt_queue_size s
      in if index < pending_interrupt_queue_size s
         then Inr (s\<lparr>pending_interrupt := (pending_interrupt s)[index := interrupt],
                      pending_interrupt_count := pending_interrupt_count s + 1\<rparr>)
         else Inl Out_of_range)"


definition interrupt_inject ::
  "interrupt_info_t \<Rightarrow> bool \<Rightarrow> vcpu_t \<Rightarrow> error + (bool \<times> vcpu_t)" where
  "interrupt_inject interrupt first s =
     (if guest_interruptibility_state_get s \<noteq> 0 \<or>
         \<not> interrupt_enable_flag (exit_context_rflags s)
      then
        (if \<not> pending_interrupt_count s < pending_interrupt_queue_size s
         then Inl Assertion_failed
         else
           (case (if first then push_front interrupt s else push_back interrupt s) of
              Inl e \<Rightarrow> Inl e
            | Inr s1 \<Rightarrow>
                (let procbased = processor_based_controls s1;
                     procbased = interrupt_window_exiting_set True procbased
                 in Inr (False, processor_based_controls_set procbased s1))))
      else
        (case interrupt_inject_force interrupt s of
           Inl e \<Rightarrow> Inl e
         | Inr s1 \<Rightarrow> Inr (True, s1)))"

text \<open>
  \<open>vcpu_t::interrupt_is_pending\<close> and \<open>vcpu_t::interrupt_inject_pending\<close>. \<open>pop_front\<close>
  is the dequeue step between the assertion and the call of \<open>interrupt_inject_force\<close>.
\<close>

definition interrupt_is_pending :: "vcpu_t \<Rightarrow> bool" where
  "interrupt_is_pending s = (pending_interrupt_count s > 0)"

definition pop_front :: "vcpu_t \<Rightarrow> error + (interrupt_info_t \<times> vcpu_t)" where
  "pop_front s =
     (if \<not> pending_interrupt_first s < pending_interrupt_queue_size s
      then Inl Out_of_range
      else
        (let interrupt = pending_interrupt s ! pending_interrupt_first s;
             s1 = s\<lparr>pending_interrupt_first := pending_interrupt_first s + 1,
                     pending_interrupt_count := pending_interrupt_count s - 1\<rparr>;
             s2 = (if pending_interrupt_count s1 = 0 \<or>
                      pending_interrupt_first s1 = pending_interrupt_queue_size s1
                   then s1\<lparr>pending_interrupt_first := 0\<rparr>
                   else s1)
         in Inr (interrupt, s2)))"

definition interrupt_inject_pending :: "vcpu_t \<Rightarrow> error + vcpu_t" where
  "interrupt_inject_pending s =
     (if \<not> (interrupt_is_pending s \<and>
             pending_interrupt_count s \<le> pending_interrupt_queue_size s)
      then Inl Assertion_failed
      else
        (case pop_front s of
           Inl e \<Rightarrow> Inl e
         | Inr (interrupt, s2) \<Rightarrow> interrupt_inject_force interrupt s2))"

section \<open>The pending ring as a list\<close>

text \<open>
  The invariant of the data model, \<open>0 \<le> count \<le> queue_size\<close> and
  \<open>head \<in> [0, queue_size)\<close>, and the contents of the ring read from the head:
  \<open>pending_list\<close> is the order in which the queued events are waiting.
\<close>

definition queue_inv :: "vcpu_t \<Rightarrow> bool" where
  "queue_inv s \<longleftrightarrow>
     0 \<le> pending_interrupt_count s \<and>
     pending_interrupt_count s \<le> pending_interrupt_queue_size s \<and>
     0 \<le> pending_interrupt_first s \<and>
     pending_interrupt_first s < pending_interrupt_queue_size s"

definition pending_list :: "vcpu_t \<Rightarrow> interrupt_info_t list" where
  "pending_list s =
     map (\<lambda>k. pending_interrupt s !
                ((pending_interrupt_first s + k) mod pending_interrupt_queue_size s))
       [0..<pending_interrupt_count s]"

text \<open>
  The assertions that \<open>interrupt_inject_force\<close> evaluates for an event: they do not depend
  on the state.
\<close>

definition assertions_hold :: "interrupt_info_t \<Rightarrow> bool" where
  "assertions_hold i \<longleftrightarrow>
     (if valid i \<and> type i = hardware_exception then
        (if vector i \<in> {invalid_tss, segment_not_present, stack_segment_fault,
                          general_protection, page_fault}
         then error_code_valid i
         else if vector i \<in> {double_fault, alignment_check}
         then error_code_valid i \<and> error_code i = 0
         else True)
      else True)"

text \<open>
  "Guest is interruptible" in the spec's words: the interruptibility state is 0 and
  RFLAGS.IF is 1. The code reads RFLAGS from the saved exit context.
\<close>

definition guest_interruptible :: "vcpu_t \<Rightarrow> bool" where
  "guest_interruptible s \<longleftrightarrow>
     guest_interruptibility_state_get s = 0 \<and> interrupt_enable_flag (exit_context_rflags s)"

text \<open>
  Between two calls the guest may run and exit again; the vCPU then sees a new guest
  interruptibility state in the VMCS and new guest RFLAGS in the exit context. The ring is
  not touched.
\<close>

definition vm_exit :: "64 word \<Rightarrow> 64 word \<Rightarrow> vcpu_t \<Rightarrow> vcpu_t" where
  "vm_exit interruptibility rflags s =
     s\<lparr>vmcs := (vmcs s)(guest_interruptibility_state := interruptibility),
       exit_context_rflags := rflags\<rparr>"

text \<open>
  A sequence of calls on one vCPU: \<open>Inject e first\<close> is \<open>interrupt_inject(e, first)\<close>,
  \<open>Inject_pending\<close> is \<open>interrupt_inject_pending()\<close>, and \<open>Vm_exit\<close> is the guest running
  in between. A call that halts ends the run.
\<close>

datatype vcpu_call =
    Inject interrupt_info_t bool
  | Inject_pending
  | Vm_exit "64 word" "64 word"

fun run_calls :: "vcpu_call list \<Rightarrow> vcpu_t \<Rightarrow> error + vcpu_t" where
  "run_calls [] s = Inr s"
| "run_calls (Inject e first # cs) s =
     (case interrupt_inject e first s of
        Inl err \<Rightarrow> Inl err
      | Inr (injected, s1) \<Rightarrow> run_calls cs s1)"
| "run_calls (Inject_pending # cs) s =
     (case interrupt_inject_pending s of
        Inl err \<Rightarrow> Inl err
      | Inr s1 \<Rightarrow> run_calls cs s1)"
| "run_calls (Vm_exit interruptibility rflags # cs) s =
     run_calls cs (vm_exit interruptibility rflags s)"

text \<open>
  What the hardware is handed: the values written to the VM-entry
  interruption-information field, in order.
\<close>

definition entry_info_writes :: "(vmcs_field \<times> 64 word) list \<Rightarrow> 64 word list" where
  "entry_info_writes ws = map snd (filter (\<lambda>w. fst w = ctrl_vmentry_interruption_info) ws)"

text \<open>
  The injection engine in the spec's words, on a list of capacity \<open>n\<close>, with \<open>b\<close> telling
  whether the guest is interruptible: an event injected while the guest is interruptible
  is delivered at once; otherwise an enqueue with \<open>first\<close> puts it before all queued entries
  and one without puts it behind them; \<open>inject_pending\<close> delivers the entry at the front.
  The result is the list of events delivered, in order, with the entries still queued;
  \<open>None\<close> when the sequence breaks a precondition (enqueue on a full queue,
  \<open>inject_pending\<close> on an empty one, delivery of an event that fails an assertion of
  \<open>interrupt_inject_force\<close>).
\<close>

definition delivered_first ::
  "interrupt_info_t \<Rightarrow> (interrupt_info_t list \<times> interrupt_info_t list) option \<Rightarrow>
   (interrupt_info_t list \<times> interrupt_info_t list) option" where
  "delivered_first x r =
     (case r of None \<Rightarrow> None | Some (delivered, rest) \<Rightarrow> Some (x # delivered, rest))"

fun engine_spec ::
  "nat \<Rightarrow> vcpu_call list \<Rightarrow> bool \<Rightarrow> interrupt_info_t list \<Rightarrow>
   (interrupt_info_t list \<times> interrupt_info_t list) option" where
  "engine_spec n [] b q = Some ([], q)"
| "engine_spec n (Vm_exit interruptibility rflags # cs) b q =
     engine_spec n cs
       ((ucast interruptibility :: 32 word) = 0 \<and> interrupt_enable_flag rflags) q"
| "engine_spec n (Inject e first # cs) b q =
     (if b then
        (if assertions_hold e then delivered_first e (engine_spec n cs b q) else None)
      else if length q < n then engine_spec n cs b (if first then e # q else q @ [e])
      else None)"
| "engine_spec n (Inject_pending # cs) b [] = None"
| "engine_spec n (Inject_pending # cs) b (x # q) =
     (if assertions_hold x then delivered_first x (engine_spec n cs b q) else None)"

section \<open>Concrete states and events\<close>

text \<open>
  A vCPU right after a VM exit with RFLAGS.IF clear, an all-zero VMCS, an empty ring of
  capacity 4, and capability masks that force bits 1, 2 and 4 of every control on.
\<close>

definition idle_vcpu :: vcpu_t where
  "idle_vcpu =
     \<lparr>vmcs = (\<lambda>f. 0),
      vmwrites = [],
      vmx_capability = (\<lambda>c. \<lparr>fixed0_mask = 0x16, fixed1_mask = 0xFFFFFFFF\<rparr>),
      exit_context_rflags = 0x2,
      pending_interrupt = replicate 4 \<lparr>info = 0, error_code = 0, rip_adjust = 0\<rparr>,
      pending_interrupt_first = 0,
      pending_interrupt_count = 0\<rparr>"

text \<open>\<open>#GP\<close> with error code \<open>0x42\<close>: valid, deliver-error-code, hardware exception, vector 13.\<close>

definition gp_0x42 :: interrupt_info_t where
  "gp_0x42 = \<lparr>info = 0x80000B0D, error_code = 0x42, rip_adjust = - 1\<rparr>"

text \<open>The same doubleword with the valid bit clear.\<close>

definition gp_invalid :: interrupt_info_t where
  "gp_invalid = \<lparr>info = 0x00000B0D, error_code = 0x42, rip_adjust = 1\<rparr>"

text \<open>\<open>int3\<close> as a software exception (type 6, vector 3) with the sentinel \<open>rip_adjust = -1\<close>.\<close>

definition int3_event :: interrupt_info_t where
  "int3_event = \<lparr>info = 0x80000603, error_code = 0, rip_adjust = - 1\<rparr>"

text \<open>A record with all members zero, and a vCPU whose last exit interrupted the delivery of a
  \<open>#PF\<close> (valid, error code valid, hardware exception, vector 14) with error code 2.\<close>

definition zero_interrupt_info :: interrupt_info_t where
  "zero_interrupt_info = \<lparr>info = 0, error_code = 0, rip_adjust = 0\<rparr>"

definition pf_exit_vcpu :: vcpu_t where
  "pf_exit_vcpu =
     idle_vcpu\<lparr>vmcs := (vmcs idle_vcpu)
       (vmexit_idt_vectoring_info := 0x80000B0E,
        vmexit_idt_vectoring_error_code := 0x2,
        vmexit_instruction_length := 3)\<rparr>"

text \<open>Three external interrupts (type 0, valid) with vectors \<open>0x30\<close>, \<open>0x31\<close>, \<open>0x32\<close>.\<close>

definition ext_0x30 :: interrupt_info_t where
  "ext_0x30 = \<lparr>info = 0x80000030, error_code = 0, rip_adjust = - 1\<rparr>"

definition ext_0x31 :: interrupt_info_t where
  "ext_0x31 = \<lparr>info = 0x80000031, error_code = 0, rip_adjust = - 1\<rparr>"

definition ext_0x32 :: interrupt_info_t where
  "ext_0x32 = \<lparr>info = 0x80000032, error_code = 0, rip_adjust = - 1\<rparr>"

text \<open>The same vCPU with RFLAGS.IF set in the exit context: the guest is interruptible.\<close>

definition interruptible_vcpu :: vcpu_t where
  "interruptible_vcpu = idle_vcpu\<lparr>exit_context_rflags := 0x202\<rparr>"

section \<open>Properties\<close>

lemmas vector_defs = invalid_tss_def segment_not_present_def stack_segment_fault_def
  general_protection_def page_fault_def double_fault_def alignment_check_def breakpoint_def

lemmas type_defs = external_def nmi_def hardware_exception_def software_def
  privileged_exception_def software_exception_def other_event_def

lemmas entry_set_defs = entry_interruption_info_set_def entry_interruption_error_code_set_def
  entry_instruction_length_set_def

lemma exit_instruction_length_vmwrite [simp]:
  "f \<noteq> vmexit_instruction_length \<Longrightarrow>
   exit_instruction_length (vmwrite f v s) = exit_instruction_length s"
  by (simp add: exit_instruction_length_def vmread_def vmwrite_def)

subsection \<open>Page-table indices\<close>

lemma index_mask: "(w :: 64 word) AND 0x1FF = take_bit 9 w"
  by (simp add: take_bit_eq_mask mask_eq_exp_minus_1)

lemma index_to_int: "sint (ucast (take_bit 9 (w :: 64 word)) :: 32 word) = uint (take_bit 9 w)"
  by (rule bit_eqI) (auto simp add: bit_simps)

lemma index_div_mod: "uint (take_bit 9 (drop_bit n (w :: 64 word))) = (uint w div 2 ^ n) mod 512"
proof -
  have "uint (take_bit 9 (drop_bit n w)) = take_bit 9 (drop_bit n (uint w))"
    by (rule bit_eqI) (auto simp add: bit_simps)
  also have "\<dots> = (uint w div 2 ^ n) mod 512"
    by (simp add: take_bit_eq_mod drop_bit_eq_div)
  finally show ?thesis .
qed

text \<open>
  C8. For every 64-bit address and every paging level \<open>L\<close> (encoded 0 = pt, 1 = pd, 2 = pdpt,
  3 = pml4), \<open>pa_t::index\<close> and \<open>va_t::index\<close> both return
  \<open>(value >> (12 + 9 * L)) & 0x1FF\<close>, which is the number
  \<open>(value div 2 ^ (12 + 9 * L)) mod 512\<close>; the conversion to \<open>int\<close> loses nothing.
\<close>

theorem index_shift_mask:
  "pa_index addr level = uint (drop_bit (12 + 9 * unat (pml_value level)) addr AND 0x1FF) \<and>
   va_index addr level = uint (drop_bit (12 + 9 * unat (pml_value level)) addr AND 0x1FF) \<and>
   pa_index addr level = (uint addr div 2 ^ (12 + 9 * unat (pml_value level))) mod 512 \<and>
   unat (pml_value pt) = 0 \<and> unat (pml_value pd) = 1 \<and>
   unat (pml_value pdpt) = 2 \<and> unat (pml_value pml4) = 3"
  by (simp add: pa_index_def va_index_def page_shift_def Let_def index_mask index_to_int
      index_div_mod mult.commute)

subsection \<open>Forced injection\<close>

text \<open>
  C2. For every event with a valid information doubleword of type hardware exception,
  \<open>interrupt_inject_force\<close> writes the VM-entry exception-error-code field, with the event's
  error code, exactly when the vector is one of 8, 10, 11, 12, 13, 14, 17. For 10 to 14 it
  asserts that the error code is valid, for 8 and 17 that it is valid and zero; a failed
  assertion halts. For any other vector the error-code field is not written.
\<close>

theorem inject_force_error_code:
  assumes "valid i" and "type i = hardware_exception"
  shows "interrupt_inject_force i s =
     (if vector i \<in> {10, 11, 12, 13, 14} then
        (if error_code_valid i
         then Inr (vmwrite ctrl_vmentry_exception_error_code (ucast (error_code i))
                 (vmwrite ctrl_vmentry_interruption_info (ucast (info i)) s))
         else Inl Assertion_failed)
      else if vector i \<in> {8, 17} then
        (if error_code_valid i \<and> error_code i = 0
         then Inr (vmwrite ctrl_vmentry_exception_error_code (ucast (error_code i))
                 (vmwrite ctrl_vmentry_interruption_info (ucast (info i)) s))
         else Inl Assertion_failed)
      else Inr (vmwrite ctrl_vmentry_interruption_info (ucast (info i)) s)) \<and>
    (\<forall>s'. interrupt_inject_force i s = Inr s' \<longrightarrow>
       vmwrites s' = vmwrites s @
         (ctrl_vmentry_interruption_info, ucast (info i)) #
         (if vector i \<in> {8, 10, 11, 12, 13, 14, 17}
          then [(ctrl_vmentry_exception_error_code, ucast (error_code i))] else []) \<and>
       vmcs s' ctrl_vmentry_exception_error_code =
         (if vector i \<in> {8, 10, 11, 12, 13, 14, 17}
          then ucast (error_code i) else vmcs s ctrl_vmentry_exception_error_code))"
  using assms
  by (simp add: interrupt_inject_force_def inject_error_code_def inject_instruction_length_def
      entry_set_defs vector_defs type_defs vmwrite_def)

theorem inject_force_error_code_witness:
  "valid gp_0x42 \<and> type gp_0x42 = hardware_exception \<and> vector gp_0x42 = 13 \<and>
   (\<exists>s'. interrupt_inject_force gp_0x42 idle_vcpu = Inr s' \<and>
      vmwrites s' = [(ctrl_vmentry_interruption_info, 0x80000B0D),
                     (ctrl_vmentry_exception_error_code, 0x42)] \<and>
      vmcs s' ctrl_vmentry_exception_error_code = 0x42)"
proof -
  have v: "valid gp_0x42" and t: "type gp_0x42 = hardware_exception"
    by (simp_all add: gp_0x42_def valid_def type_def hardware_exception_def)
  have e: "error_code_valid gp_0x42" "vector gp_0x42 = 13" "error_code gp_0x42 = 0x42"
     "info gp_0x42 = 0x80000B0D"
    by (simp_all add: gp_0x42_def error_code_valid_def vector_def)
  show ?thesis
    using inject_force_error_code [OF v t, of idle_vcpu] v t e
    by (simp add: idle_vcpu_def)
qed

text \<open>
  C10. For every event whose interruption-information valid bit is clear,
  \<open>interrupt_inject_force\<close> returns without a failed assertion, its only VMCS write is the
  (invalid) interruption information to the VM-entry interruption-information field, and
  the VM-entry exception-error-code and instruction-length fields keep their values.
\<close>

theorem inject_force_invalid:
  assumes "\<not> valid interrupt"
  shows "interrupt_inject_force interrupt s =
           Inr (vmwrite ctrl_vmentry_interruption_info (ucast (info interrupt)) s) \<and>
         (\<exists>s'. interrupt_inject_force interrupt s = Inr s' \<and>
           vmwrites s' = vmwrites s @ [(ctrl_vmentry_interruption_info, ucast (info interrupt))] \<and>
           vmcs s' ctrl_vmentry_interruption_info = ucast (info interrupt) \<and>
           vmcs s' ctrl_vmentry_exception_error_code = vmcs s ctrl_vmentry_exception_error_code \<and>
           vmcs s' ctrl_vmentry_instruction_length = vmcs s ctrl_vmentry_instruction_length)"
  using assms
  by (simp add: interrupt_inject_force_def entry_interruption_info_set_def vmwrite_def)

theorem inject_force_invalid_witness:
  "\<not> valid gp_invalid \<and>
   (\<exists>s'. interrupt_inject_force gp_invalid idle_vcpu = Inr s' \<and>
      vmwrites s' = [(ctrl_vmentry_interruption_info, 0x00000B0D)] \<and>
      vmcs s' ctrl_vmentry_exception_error_code = 0 \<and>
      vmcs s' ctrl_vmentry_instruction_length = 0)"
proof -
  have v: "\<not> valid gp_invalid"
    by (simp add: gp_invalid_def valid_def)
  show ?thesis
    using inject_force_invalid [OF v, of idle_vcpu] v
    by (simp add: idle_vcpu_def gp_invalid_def vmwrite_def)
qed

lemma inject_instruction_length_other:
  "\<not> (type i = software \<or> type i = privileged_exception \<or> type i = software_exception) \<Longrightarrow>
   inject_instruction_length i s = s"
  by (simp add: inject_instruction_length_def)

lemma inject_error_code_cases:
  "inject_error_code i s = Inr s' \<Longrightarrow>
   s' = s \<or> s' = vmwrite ctrl_vmentry_exception_error_code (ucast (error_code i)) s"
  by (auto simp add: inject_error_code_def entry_set_defs split: if_splits)

lemma inject_force_other_cases:
  assumes "\<not> (type i = software \<or> type i = privileged_exception \<or> type i = software_exception)"
    and "interrupt_inject_force i s = Inr s'"
  shows "s' = vmwrite ctrl_vmentry_interruption_info (ucast (info i)) s \<or>
         s' = vmwrite ctrl_vmentry_exception_error_code (ucast (error_code i))
                (vmwrite ctrl_vmentry_interruption_info (ucast (info i)) s)"
  using assms
  by (auto simp add: interrupt_inject_force_def inject_instruction_length_other entry_set_defs
      Let_def split: if_splits sum.splits dest: inject_error_code_cases)

text \<open>
  C3. For every event with a valid information doubleword: if its type is software
  interrupt, privileged software exception or software exception, \<open>interrupt_inject_force\<close>
  resolves \<open>rip_adjust\<close> (the sentinel \<open>-1\<close> is replaced by the exit instruction length)
  and writes the VM-entry instruction-length field exactly when the resolved value, read
  as a signed \<open>int\<close>, is positive. For every other type no call that returns writes that
  field. In particular an \<open>int3\<close> software exception with \<open>rip_adjust = -1\<close>, while the exit
  instruction length is 1, writes VM-entry instruction length 1.
\<close>

theorem inject_force_instruction_length:
  assumes "valid i"
  shows "(type i = software \<or> type i = privileged_exception \<or> type i = software_exception \<longrightarrow>
            interrupt_inject_force i s =
              (let resolved = (if rip_adjust i = - 1 then exit_instruction_length s
                               else rip_adjust i)
               in if 0 <s resolved
                  then Inr (vmwrite ctrl_vmentry_instruction_length (ucast resolved)
                         (vmwrite ctrl_vmentry_interruption_info (ucast (info i)) s))
                  else Inr (vmwrite ctrl_vmentry_interruption_info (ucast (info i)) s))) \<and>
         (\<not> (type i = software \<or> type i = privileged_exception \<or> type i = software_exception) \<longrightarrow>
            (\<forall>s'. interrupt_inject_force i s = Inr s' \<longrightarrow>
               (\<exists>ws. vmwrites s' = vmwrites s @ ws \<and>
                     ctrl_vmentry_instruction_length \<notin> fst ` set ws) \<and>
               vmcs s' ctrl_vmentry_instruction_length = vmcs s ctrl_vmentry_instruction_length)) \<and>
         (type i = software_exception \<and> vector i = breakpoint \<and> rip_adjust i = - 1 \<and>
          exit_instruction_length s = 1 \<longrightarrow>
            (\<exists>s'. interrupt_inject_force i s = Inr s' \<and>
               vmwrites s' = vmwrites s @ [(ctrl_vmentry_interruption_info, ucast (info i)),
                                           (ctrl_vmentry_instruction_length, 1)] \<and>
               vmcs s' ctrl_vmentry_instruction_length = 1))"
proof -
  let ?info = "vmwrite ctrl_vmentry_interruption_info (ucast (info i)) s"
  have sw: "interrupt_inject_force i s =
              (let resolved = (if rip_adjust i = - 1 then exit_instruction_length s
                               else rip_adjust i)
               in if 0 <s resolved
                  then Inr (vmwrite ctrl_vmentry_instruction_length (ucast resolved) ?info)
                  else Inr ?info)"
    if "type i = software \<or> type i = privileged_exception \<or> type i = software_exception"
  proof -
    from that have "type i \<noteq> hardware_exception"
      by (auto simp add: type_defs)
    with that assms show ?thesis
      by (simp add: interrupt_inject_force_def inject_error_code_def
          inject_instruction_length_def entry_set_defs Let_def)
  qed
  have other: "(\<exists>ws. vmwrites s' = vmwrites s @ ws \<and>
                  ctrl_vmentry_instruction_length \<notin> fst ` set ws) \<and>
               vmcs s' ctrl_vmentry_instruction_length = vmcs s ctrl_vmentry_instruction_length"
    if "\<not> (type i = software \<or> type i = privileged_exception \<or> type i = software_exception)"
      and "interrupt_inject_force i s = Inr s'" for s'
    using inject_force_other_cases [OF that]
    by (elim disjE) (simp_all add: vmwrite_def)
  have int3: "\<exists>s'. interrupt_inject_force i s = Inr s' \<and>
               vmwrites s' = vmwrites s @ [(ctrl_vmentry_interruption_info, ucast (info i)),
                                           (ctrl_vmentry_instruction_length, 1)] \<and>
               vmcs s' ctrl_vmentry_instruction_length = 1"
    if "type i = software_exception \<and> vector i = breakpoint \<and> rip_adjust i = - 1 \<and>
          exit_instruction_length s = 1"
    using that sw by (simp add: vmwrite_def word_sless_alt)
  from sw other int3 show ?thesis
    by blast
qed

theorem inject_force_instruction_length_witness:
  "valid int3_event \<and> type int3_event = software_exception \<and> vector int3_event = breakpoint \<and>
   rip_adjust int3_event = - 1 \<and>
   exit_instruction_length (idle_vcpu\<lparr>vmcs := (vmcs idle_vcpu)(vmexit_instruction_length := 1)\<rparr>) = 1 \<and>
   (\<exists>s'. interrupt_inject_force int3_event
            (idle_vcpu\<lparr>vmcs := (vmcs idle_vcpu)(vmexit_instruction_length := 1)\<rparr>) = Inr s' \<and>
      vmwrites s' = [(ctrl_vmentry_interruption_info, 0x80000603),
                     (ctrl_vmentry_instruction_length, 1)] \<and>
      vmcs s' ctrl_vmentry_instruction_length = 1)"
proof -
  let ?s = "idle_vcpu\<lparr>vmcs := (vmcs idle_vcpu)(vmexit_instruction_length := 1)\<rparr>"
  have v: "valid int3_event"
    by (simp add: int3_event_def valid_def)
  have e: "type int3_event = software_exception" "vector int3_event = breakpoint"
    "rip_adjust int3_event = - 1" "info int3_event = 0x80000603"
    by (simp_all add: int3_event_def type_def vector_def software_exception_def breakpoint_def)
  have l: "exit_instruction_length ?s = 1"
    by (simp add: exit_instruction_length_def vmread_def)
  have w: "vmwrites ?s = []"
    by (simp add: idle_vcpu_def)
  show ?thesis
    using inject_force_instruction_length [OF v, of ?s] v e l w
    by (simp add: vmwrite_def word_sless_alt)
qed

subsection \<open>Control fields and host descriptor tables\<close>

lemma vmread_vmwrite: "vmread f (vmwrite g v s) = (if f = g then v else vmread f s)"
  by (simp add: vmread_def vmwrite_def)

lemma adjust_vmwrite [simp]: "adjust c v (vmwrite f w s) = adjust c v s"
  by (simp add: adjust_def vmwrite_def)

lemma ucast_32_64_32: "(ucast (ucast (b :: 32 word) :: 64 word) :: 32 word) = b"
  by (rule bit_word_eqI) (simp add: bit_simps)

text \<open>
  C6 (amended). The write accessors of the five VMX controls that have a capability MSR
  (pin-based, primary and secondary processor-based, VM-entry and VM-exit controls) apply
  \<open>adjust\<close>, \<open>written = (requested | fixed0_mask) & fixed1_mask\<close>, so that a subsequent read
  returns \<open>adjust(requested)\<close>. The write accessor of the exception bitmap, also a control
  field, writes the requested value as it is, and a subsequent read returns it.
\<close>

theorem control_write_adjusted:
  "pin_based_controls (pin_based_controls_set v s) = adjust pinbased_ctls v s \<and>
   processor_based_controls (processor_based_controls_set v s) = adjust procbased_ctls v s \<and>
   processor_based_controls2 (processor_based_controls2_set v s) = adjust procbased_ctls2 v s \<and>
   vm_entry_controls (vm_entry_controls_set v s) = adjust entry_ctls v s \<and>
   vm_exit_controls (vm_exit_controls_set v s) = adjust exit_ctls v s \<and>
   adjust c v s = (v OR fixed0_mask (vmx_capability s c)) AND fixed1_mask (vmx_capability s c) \<and>
   exception_bitmap (exception_bitmap_set b s) = b \<and>
   vmwrites (exception_bitmap_set b s) = vmwrites s @ [(ctrl_exception_bitmap, ucast b)]"
  by (simp add: pin_based_controls_def pin_based_controls_set_def
      processor_based_controls_def processor_based_controls_set_def
      processor_based_controls2_def processor_based_controls2_set_def
      vm_entry_controls_def vm_entry_controls_set_def
      vm_exit_controls_def vm_exit_controls_set_def
      exception_bitmap_def exception_bitmap_set_def vmread_vmwrite)
    (simp add: adjust_def vmwrite_def ucast_32_64_32)

text \<open>
  C6 as stated fails for the exception bitmap: with capability masks that force bits on,
  writing 0 writes 0 and reads back 0, which is not the adjusted value of any control.
\<close>

theorem exception_bitmap_not_adjusted:
  "exception_bitmap (exception_bitmap_set 0 idle_vcpu) = 0 \<and>
   vmwrites (exception_bitmap_set 0 idle_vcpu) = [(ctrl_exception_bitmap, 0)] \<and>
   ucast (exception_bitmap (exception_bitmap_set 0 idle_vcpu)) \<noteq> adjust pinbased_ctls 0 idle_vcpu \<and>
   ucast (exception_bitmap (exception_bitmap_set 0 idle_vcpu)) \<noteq> adjust procbased_ctls 0 idle_vcpu \<and>
   ucast (exception_bitmap (exception_bitmap_set 0 idle_vcpu)) \<noteq> adjust procbased_ctls2 0 idle_vcpu \<and>
   ucast (exception_bitmap (exception_bitmap_set 0 idle_vcpu)) \<noteq> adjust entry_ctls 0 idle_vcpu \<and>
   ucast (exception_bitmap (exception_bitmap_set 0 idle_vcpu)) \<noteq> adjust exit_ctls 0 idle_vcpu"
  by (simp add: exception_bitmap_def exception_bitmap_set_def vmread_vmwrite adjust_def)
    (simp add: idle_vcpu_def vmwrite_def)

text \<open>
  C7. The getters \<open>host_gdtr\<close> and \<open>host_idtr\<close> return \<open>limit = 0xFFFF\<close> whatever the VMCS
  holds (the limit is not read from it), and the setters write the base address only.
  Hence after \<open>host_gdtr(g)\<close>, for any \<open>g.limit\<close>, the getter returns \<open>g\<close>'s base address with
  limit \<open>0xFFFF\<close>; likewise for the IDTR.
\<close>

theorem host_descriptor_table_limit:
  "limit (host_gdtr s) = 0xFFFF \<and>
   limit (host_idtr s) = 0xFFFF \<and>
   limit (host_gdtr (s\<lparr>vmcs := m\<rparr>)) = limit (host_gdtr s) \<and>
   limit (host_idtr (s\<lparr>vmcs := m\<rparr>)) = limit (host_idtr s) \<and>
   vmwrites (host_gdtr_set g s) = vmwrites s @ [(host_gdtr_base, base_address g)] \<and>
   vmwrites (host_idtr_set g s) = vmwrites s @ [(host_idtr_base, base_address g)] \<and>
   vmcs (host_gdtr_set g s) = (vmcs s)(host_gdtr_base := base_address g) \<and>
   vmcs (host_idtr_set g s) = (vmcs s)(host_idtr_base := base_address g) \<and>
   host_gdtr (host_gdtr_set g s) = \<lparr>base_address = base_address g, limit = 0xFFFF\<rparr> \<and>
   host_idtr (host_idtr_set g s) = \<lparr>base_address = base_address g, limit = 0xFFFF\<rparr>"
  by (simp add: host_gdtr_def host_idtr_def host_gdtr_set_def host_idtr_set_def
      vmread_def vmwrite_def)

subsection \<open>IDT-vectoring reflection\<close>

text \<open>
  C9 (amended). \<open>idt_vectoring_info()\<close> returns a record whose \<open>info\<close> is the exit
  IDT-vectoring information. When that information is valid, the error code is the exit
  IDT-vectoring error code if the error-code-valid bit is set, and \<open>rip_adjust\<close> is the exit
  instruction length; when it is not valid, error code and \<open>rip_adjust\<close> are those of the
  default-constructed record. For an exit whose IDT-vectoring information is a valid
  \<open>#PF\<close> (hardware exception, vector 14) with error code valid and error code 2,
  \<open>interrupt_inject_force\<close> of the returned record writes that information and the error
  code 2 to the VM-entry fields, and nothing else.
\<close>

theorem idt_vectoring_info_reflects:
  "info (idt_vectoring_info r0 s) = exit_idt_vectoring_info s \<and>
   (valid (idt_vectoring_info r0 s) \<longrightarrow>
      error_code (idt_vectoring_info r0 s) =
        (if error_code_valid (idt_vectoring_info r0 s)
         then exit_idt_vectoring_error_code s else error_code r0) \<and>
      rip_adjust (idt_vectoring_info r0 s) = exit_instruction_length s) \<and>
   (\<not> valid (idt_vectoring_info r0 s) \<longrightarrow>
      error_code (idt_vectoring_info r0 s) = error_code r0 \<and>
      rip_adjust (idt_vectoring_info r0 s) = rip_adjust r0) \<and>
   (valid (idt_vectoring_info r0 s) \<and>
    type (idt_vectoring_info r0 s) = hardware_exception \<and>
    vector (idt_vectoring_info r0 s) = 14 \<and>
    error_code_valid (idt_vectoring_info r0 s) \<and>
    exit_idt_vectoring_error_code s = 0x2 \<longrightarrow>
      (\<exists>s'. interrupt_inject_force (idt_vectoring_info r0 s) s = Inr s' \<and>
         vmwrites s' = vmwrites s @
           [(ctrl_vmentry_interruption_info, ucast (exit_idt_vectoring_info s)),
            (ctrl_vmentry_exception_error_code, 0x2)] \<and>
         vmcs s' ctrl_vmentry_interruption_info = ucast (exit_idt_vectoring_info s) \<and>
         vmcs s' ctrl_vmentry_exception_error_code = 0x2 \<and>
         vmcs s' ctrl_vmentry_instruction_length = vmcs s ctrl_vmentry_instruction_length))"
proof -
  let ?r = "idt_vectoring_info r0 s"
  have i: "info ?r = exit_idt_vectoring_info s"
    by (simp add: idt_vectoring_info_def Let_def valid_def error_code_valid_def)
  have v: "valid ?r = bit (exit_idt_vectoring_info s) 31"
    and e: "error_code_valid ?r = bit (exit_idt_vectoring_info s) 11"
    by (simp_all add: valid_def error_code_valid_def i)
  have ok: "error_code ?r =
        (if error_code_valid ?r then exit_idt_vectoring_error_code s else error_code r0) \<and>
      rip_adjust ?r = exit_instruction_length s" if "valid ?r"
    using that unfolding v e
    by (simp add: idt_vectoring_info_def Let_def valid_def error_code_valid_def)
  have no: "error_code ?r = error_code r0 \<and> rip_adjust ?r = rip_adjust r0" if "\<not> valid ?r"
    using that unfolding v
    by (simp add: idt_vectoring_info_def Let_def valid_def)
  have pf: "\<exists>s'. interrupt_inject_force ?r s = Inr s' \<and>
         vmwrites s' = vmwrites s @
           [(ctrl_vmentry_interruption_info, ucast (exit_idt_vectoring_info s)),
            (ctrl_vmentry_exception_error_code, 0x2)] \<and>
         vmcs s' ctrl_vmentry_interruption_info = ucast (exit_idt_vectoring_info s) \<and>
         vmcs s' ctrl_vmentry_exception_error_code = 0x2 \<and>
         vmcs s' ctrl_vmentry_instruction_length = vmcs s ctrl_vmentry_instruction_length"
    if "valid ?r \<and> type ?r = hardware_exception \<and> vector ?r = 14 \<and>
        error_code_valid ?r \<and> exit_idt_vectoring_error_code s = 0x2"
  proof -
    from that ok have ec: "error_code ?r = 0x2"
      by simp
    from that have "interrupt_inject_force ?r s =
        Inr (vmwrite ctrl_vmentry_exception_error_code (ucast (error_code ?r))
              (vmwrite ctrl_vmentry_interruption_info (ucast (info ?r)) s))"
      by (simp add: interrupt_inject_force_def inject_error_code_def
          inject_instruction_length_def entry_set_defs vector_defs type_defs)
    then show ?thesis
      by (simp add: ec i vmwrite_def)
  qed
  from i ok no pf show ?thesis
    by blast
qed

theorem idt_vectoring_info_reflects_witness:
  "valid (idt_vectoring_info zero_interrupt_info pf_exit_vcpu) \<and>
   type (idt_vectoring_info zero_interrupt_info pf_exit_vcpu) = hardware_exception \<and>
   vector (idt_vectoring_info zero_interrupt_info pf_exit_vcpu) = 14 \<and>
   error_code_valid (idt_vectoring_info zero_interrupt_info pf_exit_vcpu) \<and>
   exit_idt_vectoring_error_code pf_exit_vcpu = 0x2 \<and>
   idt_vectoring_info zero_interrupt_info pf_exit_vcpu =
     \<lparr>info = 0x80000B0E, error_code = 0x2, rip_adjust = 3\<rparr> \<and>
   (\<exists>s'. interrupt_inject_force (idt_vectoring_info zero_interrupt_info pf_exit_vcpu)
            pf_exit_vcpu = Inr s' \<and>
      vmwrites s' = [(ctrl_vmentry_interruption_info, 0x80000B0E),
                     (ctrl_vmentry_exception_error_code, 0x2)])"
proof -
  let ?r = "idt_vectoring_info zero_interrupt_info pf_exit_vcpu"
  have x: "exit_idt_vectoring_info pf_exit_vcpu = 0x80000B0E"
    "exit_idt_vectoring_error_code pf_exit_vcpu = 0x2"
    "exit_instruction_length pf_exit_vcpu = 3"
    "vmwrites pf_exit_vcpu = []"
    by (simp_all add: pf_exit_vcpu_def idle_vcpu_def exit_idt_vectoring_info_def
        exit_idt_vectoring_error_code_def exit_instruction_length_def vmread_def)
  have r: "?r = \<lparr>info = 0x80000B0E, error_code = 0x2, rip_adjust = 3\<rparr>"
    by (simp add: idt_vectoring_info_def x Let_def valid_def error_code_valid_def
        zero_interrupt_info_def)
  have h: "valid ?r" "type ?r = hardware_exception" "vector ?r = 14" "error_code_valid ?r"
    unfolding r by (simp_all add: valid_def type_def vector_def error_code_valid_def type_defs)
  show ?thesis
    using idt_vectoring_info_reflects [of zero_interrupt_info pf_exit_vcpu] h x r
    by auto
qed

text \<open>
  Whatever record the default constructor builds, there is an exit after which
  \<open>rip_adjust\<close> is not the exit instruction length.
\<close>

lemma idt_vectoring_info_any_default:
  "\<exists>s. \<not> valid (idt_vectoring_info r0 s) \<and>
       rip_adjust (idt_vectoring_info r0 s) \<noteq> exit_instruction_length s"
proof -
  let ?s = "idle_vcpu\<lparr>vmcs := (vmcs idle_vcpu)
              (vmexit_instruction_length := ucast (rip_adjust r0 + 1))\<rparr>"
  have l: "exit_instruction_length ?s = rip_adjust r0 + 1"
    by (simp add: exit_instruction_length_def vmread_def ucast_32_64_32)
  have i: "exit_idt_vectoring_info ?s = 0"
    by (simp add: exit_idt_vectoring_info_def vmread_def idle_vcpu_def)
  have "\<not> valid (idt_vectoring_info r0 ?s) \<and>
        rip_adjust (idt_vectoring_info r0 ?s) = rip_adjust r0"
    by (simp add: idt_vectoring_info_def Let_def valid_def i)
  with l have "\<not> valid (idt_vectoring_info r0 ?s) \<and>
        rip_adjust (idt_vectoring_info r0 ?s) \<noteq> exit_instruction_length ?s"
    by simp
  then show ?thesis
    by blast
qed

text \<open>
  C9 as stated fails when the IDT-vectoring information is not valid: \<open>rip_adjust\<close> is then
  left as constructed, not set to the exit instruction length.
\<close>

theorem idt_vectoring_info_rip_adjust_invalid:
  "\<not> valid (idt_vectoring_info zero_interrupt_info
     (idle_vcpu\<lparr>vmcs := (vmcs idle_vcpu)(vmexit_instruction_length := 3)\<rparr>)) \<and>
   rip_adjust (idt_vectoring_info zero_interrupt_info
     (idle_vcpu\<lparr>vmcs := (vmcs idle_vcpu)(vmexit_instruction_length := 3)\<rparr>)) = 0 \<and>
   exit_instruction_length
     (idle_vcpu\<lparr>vmcs := (vmcs idle_vcpu)(vmexit_instruction_length := 3)\<rparr>) = 3 \<and>
   rip_adjust (idt_vectoring_info zero_interrupt_info
     (idle_vcpu\<lparr>vmcs := (vmcs idle_vcpu)(vmexit_instruction_length := 3)\<rparr>)) \<noteq>
   exit_instruction_length
     (idle_vcpu\<lparr>vmcs := (vmcs idle_vcpu)(vmexit_instruction_length := 3)\<rparr>)"
  by (simp add: idt_vectoring_info_def exit_idt_vectoring_info_def exit_instruction_length_def
      vmread_def idle_vcpu_def valid_def zero_interrupt_info_def Let_def)

subsection \<open>The pending ring\<close>

lemma ring_distinct:
  fixes f k c n :: nat
  assumes "k < c" and "c < n"
  shows "(f + k) mod n \<noteq> (f + c) mod n"
proof
  assume "(f + k) mod n = (f + c) mod n"
  then have "(f + c) mod n = (f + k) mod n"
    by simp
  moreover have "f + k \<le> f + c"
    using assms by simp
  ultimately have "n dvd (f + c) - (f + k)"
    by (simp add: mod_eq_dvd_iff_nat)
  then have "n dvd c - k"
    by simp
  moreover have "0 < c - k" and "c - k < n"
    using assms by simp_all
  ultimately show False
    by (simp add: dvd_imp_le leD)
qed

lemma head_pred:
  fixes f n :: nat
  assumes "f < n"
  shows "(if f = 0 then n - 1 else f - 1) = (f + (n - 1)) mod n"
proof (cases "f = 0")
  case True
  with assms show ?thesis by simp
next
  case False
  then have "f + (n - 1) = (f - 1) + n"
    using assms by simp
  then have "(f + (n - 1)) mod n = (f - 1) mod n"
    by simp
  with False assms show ?thesis
    by simp
qed

lemma head_pred_succ:
  fixes f n k :: nat
  assumes "f < n"
  shows "((f + (n - 1)) mod n + Suc k) mod n = (f + k) mod n"
proof -
  have "((f + (n - 1)) mod n + Suc k) mod n = (f + (n - 1) + Suc k) mod n"
    by (rule mod_add_left_eq)
  also have "f + (n - 1) + Suc k = (f + k) + n"
    using assms by simp
  finally show ?thesis
    by simp
qed


lemma pending_list_push_back:
  assumes "queue_inv s" and "pending_interrupt_count s < pending_interrupt_queue_size s"
  shows "\<exists>s1. push_back e s = Inr s1 \<and>
           pending_list s1 = pending_list s @ [e] \<and>
           queue_inv s1 \<and>
           pending_interrupt_queue_size s1 = pending_interrupt_queue_size s \<and>
           pending_interrupt_count s1 = pending_interrupt_count s + 1 \<and>
           vmcs s1 = vmcs s \<and> vmwrites s1 = vmwrites s \<and>
           vmx_capability s1 = vmx_capability s \<and>
           exit_context_rflags s1 = exit_context_rflags s"
proof -
  let ?n = "pending_interrupt_queue_size s"
  let ?f = "pending_interrupt_first s"
  let ?c = "pending_interrupt_count s"
  let ?xs = "pending_interrupt s"
  let ?i = "(?f + ?c) mod ?n"
  let ?s1 = "s\<lparr>pending_interrupt := ?xs[?i := e], pending_interrupt_count := ?c + 1\<rparr>"
  have len: "length ?xs = ?n"
    by (simp add: pending_interrupt_queue_size_def)
  have "0 < ?n"
    using assms(2) by linarith
  then have i: "?i < ?n"
    by simp
  have r: "push_back e s = Inr ?s1"
    using i by (simp add: push_back_def Let_def)
  have old: "(?xs[?i := e]) ! ((?f + k) mod ?n) = ?xs ! ((?f + k) mod ?n)" if "k < ?c" for k
    using ring_distinct [OF that assms(2), of ?f] by simp
  have new: "(?xs[?i := e]) ! ?i = e"
    using i len by simp
  have "pending_list ?s1 =
          map (\<lambda>k. (?xs[?i := e]) ! ((?f + k) mod ?n)) [0..<?c] @ [(?xs[?i := e]) ! ?i]"
    by (simp add: pending_list_def pending_interrupt_queue_size_def)
  also have "map (\<lambda>k. (?xs[?i := e]) ! ((?f + k) mod ?n)) [0..<?c] = pending_list s"
    unfolding pending_list_def by (rule map_cong) (simp_all add: old)
  finally have l: "pending_list ?s1 = pending_list s @ [e]"
    using new by simp
  have inv: "queue_inv ?s1"
    using assms by (simp add: queue_inv_def pending_interrupt_queue_size_def)
  show ?thesis
    using r l inv by (simp add: pending_interrupt_queue_size_def)
qed

lemma pending_list_push_front:
  assumes "queue_inv s" and "pending_interrupt_count s < pending_interrupt_queue_size s"
  shows "\<exists>s1. push_front e s = Inr s1 \<and>
           pending_list s1 = e # pending_list s \<and>
           queue_inv s1 \<and>
           pending_interrupt_queue_size s1 = pending_interrupt_queue_size s \<and>
           pending_interrupt_count s1 = pending_interrupt_count s + 1 \<and>
           vmcs s1 = vmcs s \<and> vmwrites s1 = vmwrites s \<and>
           vmx_capability s1 = vmx_capability s \<and>
           exit_context_rflags s1 = exit_context_rflags s"
proof -
  let ?n = "pending_interrupt_queue_size s"
  let ?f = "pending_interrupt_first s"
  let ?c = "pending_interrupt_count s"
  let ?xs = "pending_interrupt s"
  let ?h = "(?f + (?n - 1)) mod ?n"
  let ?s1 = "s\<lparr>pending_interrupt := ?xs[?h := e], pending_interrupt_first := ?h,
                pending_interrupt_count := ?c + 1\<rparr>"
  have f: "?f < ?n" and len: "length ?xs = ?n"
    using assms by (simp_all add: queue_inv_def pending_interrupt_queue_size_def)
  then have h: "?h < ?n"
    by simp
  have hd: "(if ?f = 0 then ?n - 1 else ?f - 1) = ?h"
    by (rule head_pred [OF f])
  have r: "push_front e s = Inr ?s1"
    using h by (simp add: push_front_def Let_def hd)
  have old: "(?xs[?h := e]) ! ((?h + Suc k) mod ?n) = ?xs ! ((?f + k) mod ?n)" if "k < ?c" for k
  proof -
    from that assms(2) have "k < ?n - 1" "?n - 1 < ?n"
      by simp_all
    from ring_distinct [OF this, of ?f] have ne: "?h \<noteq> (?f + k) mod ?n"
      by (rule not_sym)
    have eq: "(?h + Suc k) mod ?n = (?f + k) mod ?n"
      by (rule head_pred_succ [OF f])
    show ?thesis
      unfolding eq using ne by (rule nth_list_update_neq)
  qed
  have new: "(?xs[?h := e]) ! (?h mod ?n) = e"
    using h len by simp
  have "pending_list ?s1 = map (\<lambda>k. (?xs[?h := e]) ! ((?h + k) mod ?n)) [0..<Suc ?c]"
    by (simp add: pending_list_def pending_interrupt_queue_size_def)
  also have "\<dots> = (?xs[?h := e]) ! (?h mod ?n) #
                     map (\<lambda>k. (?xs[?h := e]) ! ((?h + Suc k) mod ?n)) [0..<?c]"
    by (simp add: upt_conv_Cons map_Suc_upt [symmetric] del: upt_Suc)
  also have "map (\<lambda>k. (?xs[?h := e]) ! ((?h + Suc k) mod ?n)) [0..<?c] = pending_list s"
    unfolding pending_list_def
  proof (rule map_cong)
    fix k
    assume "k \<in> set [0..<?c]"
    then have "k < ?c"
      by simp
    then show "(?xs[?h := e]) ! ((?h + Suc k) mod ?n) = ?xs ! ((?f + k) mod ?n)"
      by (rule old)
  qed simp
  finally have l: "pending_list ?s1 = e # pending_list s"
    using new by simp
  have inv: "queue_inv ?s1"
    using assms h by (simp add: queue_inv_def pending_interrupt_queue_size_def)
  show ?thesis
    using r l inv by (simp add: pending_interrupt_queue_size_def)
qed

lemma queue_fields_vmwrite [simp]:
  "pending_interrupt (vmwrite f v s) = pending_interrupt s"
  "pending_interrupt_first (vmwrite f v s) = pending_interrupt_first s"
  "pending_interrupt_count (vmwrite f v s) = pending_interrupt_count s"
  "pending_interrupt_queue_size (vmwrite f v s) = pending_interrupt_queue_size s"
  "exit_context_rflags (vmwrite f v s) = exit_context_rflags s"
  "vmx_capability (vmwrite f v s) = vmx_capability s"
  "pending_list (vmwrite f v s) = pending_list s"
  "queue_inv (vmwrite f v s) = queue_inv s"
  by (simp_all add: vmwrite_def pending_interrupt_queue_size_def pending_list_def queue_inv_def)

lemma inject_force_assertions:
  "(\<exists>s'. interrupt_inject_force i s = Inr s') \<longleftrightarrow> assertions_hold i"
  "interrupt_inject_force i s = Inl e \<Longrightarrow> e = Assertion_failed"
  by (auto simp add: interrupt_inject_force_def inject_error_code_def assertions_hold_def
      Let_def split: if_splits sum.splits)

lemma inject_force_frame:
  assumes "interrupt_inject_force i s = Inr s'"
  shows "pending_list s' = pending_list s \<and> queue_inv s' = queue_inv s \<and>
         pending_interrupt s' = pending_interrupt s \<and>
         pending_interrupt_first s' = pending_interrupt_first s \<and>
         pending_interrupt_count s' = pending_interrupt_count s \<and>
         pending_interrupt_queue_size s' = pending_interrupt_queue_size s \<and>
         exit_context_rflags s' = exit_context_rflags s \<and>
         vmx_capability s' = vmx_capability s \<and>
         vmcs s' guest_interruptibility_state = vmcs s guest_interruptibility_state \<and>
         entry_info_writes (vmwrites s') = entry_info_writes (vmwrites s) @ [ucast (info i)]"
proof -
  let ?s1 = "vmwrite ctrl_vmentry_interruption_info (ucast (info i)) s"
  from assms have
    "s' = ?s1 \<or>
     s' = vmwrite ctrl_vmentry_exception_error_code (ucast (error_code i)) ?s1 \<or>
     (\<exists>l. s' = vmwrite ctrl_vmentry_instruction_length l ?s1) \<or>
     (\<exists>l. s' = vmwrite ctrl_vmentry_instruction_length l
              (vmwrite ctrl_vmentry_exception_error_code (ucast (error_code i)) ?s1))"
    by (auto simp add: interrupt_inject_force_def inject_instruction_length_def entry_set_defs
        Let_def split: if_splits sum.splits dest!: inject_error_code_cases)
  then show ?thesis
    by (elim disjE exE) (simp_all, simp_all add: vmwrite_def entry_info_writes_def)
qed


lemma pending_list_pop_front:
  assumes "queue_inv s" and "0 < pending_interrupt_count s"
  shows "\<exists>s2. pop_front s = Inr (hd (pending_list s), s2) \<and>
           pending_list s2 = tl (pending_list s) \<and>
           pending_list s \<noteq> [] \<and>
           queue_inv s2 \<and>
           pending_interrupt_queue_size s2 = pending_interrupt_queue_size s \<and>
           pending_interrupt_count s2 = pending_interrupt_count s - 1 \<and>
           pending_interrupt_first s2 =
             (if pending_interrupt_count s - 1 = 0 \<or>
                 pending_interrupt_first s + 1 = pending_interrupt_queue_size s
              then 0 else pending_interrupt_first s + 1) \<and>
           vmcs s2 = vmcs s \<and> vmwrites s2 = vmwrites s \<and>
           vmx_capability s2 = vmx_capability s \<and>
           exit_context_rflags s2 = exit_context_rflags s"
proof -
  let ?n = "pending_interrupt_queue_size s"
  let ?f = "pending_interrupt_first s"
  let ?c = "pending_interrupt_count s"
  let ?xs = "pending_interrupt s"
  let ?g = "\<lambda>k. ?xs ! ((?f + k) mod ?n)"
  let ?f' = "if ?c - 1 = 0 \<or> ?f + 1 = ?n then 0 else ?f + 1"
  let ?s2 = "s\<lparr>pending_interrupt_count := ?c - 1, pending_interrupt_first := ?f'\<rparr>"
  have f: "?f < ?n" and c: "?c \<le> ?n"
    using assms by (simp_all add: queue_inv_def)
  obtain c' where c': "?c = Suc c'"
    using assms(2) by (cases ?c) simp_all
  have l: "pending_list s = ?g 0 # map (\<lambda>k. ?g (Suc k)) [0..<c']"
    unfolding pending_list_def c'
    by (simp add: upt_conv_Cons map_Suc_upt [symmetric] del: upt_Suc)
  have h: "?xs ! ?f = hd (pending_list s)"
    using f by (simp add: l)
  have r: "pop_front s = Inr (hd (pending_list s), ?s2)"
    using f by (simp add: pop_front_def Let_def h pending_interrupt_queue_size_def)
  have inv: "queue_inv ?s2"
    using f c by (auto simp add: queue_inv_def pending_interrupt_queue_size_def)
  have t: "pending_list ?s2 = tl (pending_list s)"
  proof (cases "c' = 0")
    case True
    then show ?thesis
      by (simp add: l) (simp add: pending_list_def c')
  next
    case False
    let ?h = "if ?f + 1 = ?n then 0 else ?f + 1"
    have h': "?h = (?f + 1) mod ?n"
      using f by simp
    have "pending_list ?s2 = map (\<lambda>k. ?xs ! ((?h + k) mod ?n)) [0..<c']"
      using False
      by (simp add: pending_list_def c' pending_interrupt_queue_size_def)
    also have "\<dots> = map (\<lambda>k. ?g (Suc k)) [0..<c']"
    proof (rule map_cong)
      fix k
      have "(?h + k) mod ?n = ((?f + 1) mod ?n + k) mod ?n"
        by (simp only: h')
      also have "\<dots> = (?f + 1 + k) mod ?n"
        by (rule mod_add_left_eq)
      finally show "?xs ! ((?h + k) mod ?n) = ?g (Suc k)"
        by simp
    qed simp
    finally show ?thesis
      by (simp add: l)
  qed
  show ?thesis
    using r inv t by (simp add: l pending_interrupt_queue_size_def)
qed

lemma guest_interruptible_vmwrite [simp]:
  "f \<noteq> guest_interruptibility_state \<Longrightarrow>
   guest_interruptible (vmwrite f v s) = guest_interruptible s"
  by (simp add: guest_interruptible_def guest_interruptibility_state_get_def vmread_def
      vmwrite_def)

lemma guest_interruptible_cong:
  "vmcs s' guest_interruptibility_state = vmcs s guest_interruptibility_state \<Longrightarrow>
   exit_context_rflags s' = exit_context_rflags s \<Longrightarrow>
   guest_interruptible s' = guest_interruptible s"
  by (simp add: guest_interruptible_def guest_interruptibility_state_get_def vmread_def)

lemma entry_info_writes_append [simp]:
  "entry_info_writes (xs @ ys) = entry_info_writes xs @ entry_info_writes ys"
  by (simp add: entry_info_writes_def)

lemma vmwrite_sel [simp]:
  "vmwrites (vmwrite f v s) = vmwrites s @ [(f, v)]"
  "vmcs (vmwrite f v s) = (vmcs s)(f := v)"
  by (simp_all add: vmwrite_def)

lemma inject_enqueues:
  assumes "queue_inv s" and "\<not> guest_interruptible s"
    and "pending_interrupt_count s < pending_interrupt_queue_size s"
  shows "\<exists>s'. interrupt_inject e first s = Inr (False, s') \<and>
           pending_list s' = (if first then e # pending_list s else pending_list s @ [e]) \<and>
           queue_inv s' \<and>
           pending_interrupt_queue_size s' = pending_interrupt_queue_size s \<and>
           pending_interrupt_count s' = pending_interrupt_count s + 1 \<and>
           \<not> guest_interruptible s' \<and>
           vmwrites s' = vmwrites s @
             [(ctrl_processor_based_vm_execution_controls,
               adjust procbased_ctls
                 (interrupt_window_exiting_set True (processor_based_controls s)) s)] \<and>
           vmcs s' = (vmcs s)(ctrl_processor_based_vm_execution_controls :=
               adjust procbased_ctls
                 (interrupt_window_exiting_set True (processor_based_controls s)) s)"
proof -
  let ?push = "if first then push_front e s else push_back e s"
  from pending_list_push_front [OF assms(1,3), of e] pending_list_push_back [OF assms(1,3), of e]
  obtain s1 where s1: "?push = Inr s1"
    "pending_list s1 = (if first then e # pending_list s else pending_list s @ [e])"
    "queue_inv s1" "pending_interrupt_queue_size s1 = pending_interrupt_queue_size s"
    "pending_interrupt_count s1 = pending_interrupt_count s + 1"
    "vmcs s1 = vmcs s" "vmwrites s1 = vmwrites s" "vmx_capability s1 = vmx_capability s"
    "exit_context_rflags s1 = exit_context_rflags s"
    by (cases first) auto
  let ?v = "adjust procbased_ctls
              (interrupt_window_exiting_set True (processor_based_controls s)) s"
  let ?s' = "vmwrite ctrl_processor_based_vm_execution_controls ?v s1"
  have v: "adjust procbased_ctls
             (interrupt_window_exiting_set True (processor_based_controls s1)) s1 = ?v"
    using s1 by (simp add: adjust_def processor_based_controls_def vmread_def)
  have ni: "guest_interruptibility_state_get s \<noteq> 0 \<or>
            \<not> interrupt_enable_flag (exit_context_rflags s)"
    using assms(2) by (simp add: guest_interruptible_def)
  have r: "interrupt_inject e first s = Inr (False, ?s')"
    using ni assms(3) s1(1) v
    by (simp add: interrupt_inject_def Let_def processor_based_controls_set_def)
  have g: "\<not> guest_interruptible ?s'"
    using assms(2) s1 by (simp add: guest_interruptible_cong [of s1 s])
  show ?thesis
    using r s1 g by simp
qed

lemma inject_pending_delivers:
  assumes "queue_inv s" and "0 < pending_interrupt_count s"
  shows "\<exists>s2. interrupt_inject_pending s = interrupt_inject_force (hd (pending_list s)) s2 \<and>
           pending_list s2 = tl (pending_list s) \<and> pending_list s \<noteq> [] \<and> queue_inv s2 \<and>
           pending_interrupt_queue_size s2 = pending_interrupt_queue_size s \<and>
           pending_interrupt_count s2 = pending_interrupt_count s - 1 \<and>
           pending_interrupt_first s2 =
             (if pending_interrupt_count s - 1 = 0 \<or>
                 pending_interrupt_first s + 1 = pending_interrupt_queue_size s
              then 0 else pending_interrupt_first s + 1) \<and>
           vmcs s2 = vmcs s \<and> vmwrites s2 = vmwrites s \<and>
           vmx_capability s2 = vmx_capability s \<and>
           exit_context_rflags s2 = exit_context_rflags s"
proof -
  from pending_list_pop_front [OF assms] obtain s2 where
    p: "pop_front s = Inr (hd (pending_list s), s2)" and
    rest: "pending_list s2 = tl (pending_list s) \<and> pending_list s \<noteq> [] \<and> queue_inv s2 \<and>
           pending_interrupt_queue_size s2 = pending_interrupt_queue_size s \<and>
           pending_interrupt_count s2 = pending_interrupt_count s - 1 \<and>
           pending_interrupt_first s2 =
             (if pending_interrupt_count s - 1 = 0 \<or>
                 pending_interrupt_first s + 1 = pending_interrupt_queue_size s
              then 0 else pending_interrupt_first s + 1) \<and>
           vmcs s2 = vmcs s \<and> vmwrites s2 = vmwrites s \<and>
           vmx_capability s2 = vmx_capability s \<and>
           exit_context_rflags s2 = exit_context_rflags s"
    by blast
  have "interrupt_inject_pending s = interrupt_inject_force (hd (pending_list s)) s2"
    using assms p by (simp add: interrupt_inject_pending_def interrupt_is_pending_def queue_inv_def)
  with rest show ?thesis
    by blast
qed


lemma length_pending_list [simp]: "length (pending_list s) = pending_interrupt_count s"
  by (simp add: pending_list_def)

lemma inject_full_halts:
  assumes "\<not> guest_interruptible s"
    and "\<not> pending_interrupt_count s < pending_interrupt_queue_size s"
  shows "interrupt_inject e first s = Inl Assertion_failed"
  using assms by (simp add: interrupt_inject_def guest_interruptible_def)

lemma inject_pending_empty_halts:
  assumes "pending_interrupt_count s = 0"
  shows "interrupt_inject_pending s = Inl Assertion_failed"
  using assms by (simp add: interrupt_inject_pending_def interrupt_is_pending_def)

lemma vm_exit_sel [simp]:
  "guest_interruptible (vm_exit g r s) \<longleftrightarrow> (ucast g :: 32 word) = 0 \<and> interrupt_enable_flag r"
  "queue_inv (vm_exit g r s) = queue_inv s"
  "pending_list (vm_exit g r s) = pending_list s"
  "pending_interrupt_queue_size (vm_exit g r s) = pending_interrupt_queue_size s"
  "vmwrites (vm_exit g r s) = vmwrites s"
  by (simp_all add: vm_exit_def guest_interruptible_def guest_interruptibility_state_get_def
      vmread_def queue_inv_def pending_list_def pending_interrupt_queue_size_def)

lemma inject_immediate:
  assumes "guest_interruptible s"
  shows "interrupt_inject e first s =
           (case interrupt_inject_force e s of Inl err \<Rightarrow> Inl err | Inr s1 \<Rightarrow> Inr (True, s1))"
  using assms by (simp add: interrupt_inject_def guest_interruptible_def)

lemma run_calls_refines:
  assumes "queue_inv s"
  shows "case engine_spec (pending_interrupt_queue_size s) cs (guest_interruptible s)
                (pending_list s) of
           None \<Rightarrow> (\<exists>err. run_calls cs s = Inl err)
         | Some (delivered, rest) \<Rightarrow>
             (\<exists>s'. run_calls cs s = Inr s' \<and> pending_list s' = rest \<and> queue_inv s' \<and>
                pending_interrupt_queue_size s' = pending_interrupt_queue_size s \<and>
                entry_info_writes (vmwrites s') =
                  entry_info_writes (vmwrites s) @ map (\<lambda>i. ucast (info i)) delivered)"
  using assms
proof (induction cs arbitrary: s)
  case Nil
  then show ?case
    by simp
next
  case (Cons c cs)
  let ?n = "pending_interrupt_queue_size s"
  let ?b = "guest_interruptible s"
  have deliver: ?case
    if r: "run_calls (c # cs) s =
             (case interrupt_inject_force x s2 of Inl err \<Rightarrow> Inl err | Inr s3 \<Rightarrow> run_calls cs s3)"
      and d: "engine_spec ?n (c # cs) ?b (pending_list s) =
             (if assertions_hold x
              then delivered_first x (engine_spec ?n cs ?b (pending_list s2)) else None)"
      and i: "queue_inv s2"
      and n: "pending_interrupt_queue_size s2 = ?n"
      and f: "vmcs s2 = vmcs s" "vmwrites s2 = vmwrites s"
             "exit_context_rflags s2 = exit_context_rflags s"
    for x s2
  proof (cases "assertions_hold x")
    case True
    then obtain s3 where s3: "interrupt_inject_force x s2 = Inr s3"
      using inject_force_assertions(1) [of x s2] by blast
    note fr = inject_force_frame [OF s3]
    have i3: "queue_inv s3"
      using fr i by simp
    have g3: "guest_interruptible s3 = ?b"
      using fr f by (simp add: guest_interruptible_cong [of s3 s])
    have l3: "pending_list s3 = pending_list s2"
      using fr by simp
    have n3: "pending_interrupt_queue_size s3 = ?n"
      using fr n by simp
    have w3: "entry_info_writes (vmwrites s3) =
                entry_info_writes (vmwrites s) @ [ucast (info x)]"
      using fr f by simp
    from Cons.IH [OF i3] show ?thesis
      unfolding r d s3 g3 l3 n3 w3
      by (auto simp add: True delivered_first_def split: option.splits)
  next
    case False
    then have "\<not> (\<exists>s'. interrupt_inject_force x s2 = Inr s')"
      using inject_force_assertions(1) [of x s2] by blast
    then obtain err where "interrupt_inject_force x s2 = Inl err"
      by (cases "interrupt_inject_force x s2") auto
    then show ?thesis
      using False by (simp add: r d)
  qed
  show ?case
  proof (cases c)
    case (Inject e first)
    show ?thesis
    proof (cases ?b)
      case True
      have "run_calls (c # cs) s =
              (case interrupt_inject_force e s of
                 Inl err \<Rightarrow> Inl err | Inr s3 \<Rightarrow> run_calls cs s3)"
        by (simp add: Inject inject_immediate [OF True] split: sum.splits)
      moreover have "engine_spec ?n (c # cs) ?b (pending_list s) =
             (if assertions_hold e
              then delivered_first e (engine_spec ?n cs ?b (pending_list s)) else None)"
        using True by (simp add: Inject)
      ultimately show ?thesis
        using Cons.prems by (rule deliver) simp_all
    next
      case False
      show ?thesis
      proof (cases "pending_interrupt_count s < ?n")
        case True
        from inject_enqueues [OF Cons.prems False True, of e first] obtain s1 where
          r: "interrupt_inject e first s = Inr (False, s1)" and
          l: "pending_list s1 = (if first then e # pending_list s else pending_list s @ [e])" and
          i: "queue_inv s1" and g: "\<not> guest_interruptible s1" and
          n: "pending_interrupt_queue_size s1 = ?n" and
          w: "vmwrites s1 = vmwrites s @
               [(ctrl_processor_based_vm_execution_controls,
                 adjust procbased_ctls
                   (interrupt_window_exiting_set True (processor_based_controls s)) s)]"
          by blast
        have w': "entry_info_writes (vmwrites s1) = entry_info_writes (vmwrites s)"
          by (simp add: w) (simp add: entry_info_writes_def)
        have g': "guest_interruptible s1 = ?b"
          using g False by simp
        have d: "engine_spec ?n (c # cs) ?b (pending_list s) =
                   engine_spec ?n cs ?b (pending_list s1)"
          using True False by (simp add: Inject l)
        have rr: "run_calls (c # cs) s = run_calls cs s1"
          by (simp add: Inject r)
        from Cons.IH [OF i] show ?thesis
          unfolding d rr n w' g' .
      next
        case full: False
        then show ?thesis
          using inject_full_halts [OF False full, of e first] False
          by (simp add: Inject)
      qed
    qed
  next
    case Inject_pending
    show ?thesis
    proof (cases "pending_interrupt_count s = 0")
      case True
      then have "pending_list s = []"
        by (simp add: pending_list_def)
      then show ?thesis
        using inject_pending_empty_halts [OF True]
        by (simp add: Inject_pending)
    next
      case False
      then have pos: "0 < pending_interrupt_count s"
        by simp
      from inject_pending_delivers [OF Cons.prems(1) pos] obtain s2 where
        r: "interrupt_inject_pending s = interrupt_inject_force (hd (pending_list s)) s2" and
        l: "pending_list s2 = tl (pending_list s)" "pending_list s \<noteq> []" and
        i: "queue_inv s2" and
        n: "pending_interrupt_queue_size s2 = ?n" and
        f: "vmcs s2 = vmcs s" "vmwrites s2 = vmwrites s"
           "exit_context_rflags s2 = exit_context_rflags s"
        by blast
      obtain x q where xq: "pending_list s = x # q"
        using l(2) by (cases "pending_list s") simp_all
      have "run_calls (c # cs) s =
              (case interrupt_inject_force x s2 of
                 Inl err \<Rightarrow> Inl err | Inr s3 \<Rightarrow> run_calls cs s3)"
        by (simp add: Inject_pending r xq)
      moreover have "engine_spec ?n (c # cs) ?b (pending_list s) =
             (if assertions_hold x
              then delivered_first x (engine_spec ?n cs ?b (pending_list s2)) else None)"
        using l by (simp add: Inject_pending xq)
      ultimately show ?thesis
        using i n f by (rule deliver)
    qed
  next
    case (Vm_exit g r)
    have i: "queue_inv (vm_exit g r s)"
      using Cons.prems by simp
    from Cons.IH [OF i] show ?thesis
      by (auto simp add: Vm_exit split: option.splits)
  qed
qed

text \<open>
  C4. For every sequence of calls of \<open>interrupt_inject\<close> and \<open>interrupt_inject_pending\<close>
  (with the guest running in between), the code delivers what the list discipline of the
  spec delivers: an event injected while the guest is not interruptible is queued, behind
  the queued entries or, with \<open>first = true\<close>, before all of them, and every
  \<open>interrupt_inject_pending\<close> hands the entry at the front to \<open>interrupt_inject_force\<close>. So
  the dequeue order is the enqueue order except that a \<open>first = true\<close> insertion is delivered
  before all entries queued before it. In particular, on an empty ring of capacity at least
  3, after enqueuing A (back), B (\<open>first = true\<close>) and C (back), each of them passing the
  assertions of \<open>interrupt_inject_force\<close>, the next three \<open>interrupt_inject_pending\<close> calls
  deliver B, then A, then C.
\<close>

theorem pending_queue_order:
  assumes "queue_inv s"
  shows
    "(case engine_spec (pending_interrupt_queue_size s) cs (guest_interruptible s)
             (pending_list s) of
        None \<Rightarrow> (\<exists>err. run_calls cs s = Inl err)
      | Some (delivered, rest) \<Rightarrow>
          (\<exists>s'. run_calls cs s = Inr s' \<and> pending_list s' = rest \<and>
             entry_info_writes (vmwrites s') =
               entry_info_writes (vmwrites s) @ map (\<lambda>i. ucast (info i)) delivered)) \<and>
     (\<not> guest_interruptible s \<and>
      pending_interrupt_count s < pending_interrupt_queue_size s \<longrightarrow>
        (\<exists>s'. interrupt_inject e first s = Inr (False, s') \<and>
           pending_list s' = (if first then e # pending_list s else pending_list s @ [e]))) \<and>
     (0 < pending_interrupt_count s \<longrightarrow>
        (\<exists>s2. interrupt_inject_pending s = interrupt_inject_force (hd (pending_list s)) s2 \<and>
           pending_list s2 = tl (pending_list s) \<and>
           vmcs s2 = vmcs s \<and> vmwrites s2 = vmwrites s)) \<and>
     (\<not> guest_interruptible s \<and> pending_interrupt_count s = 0 \<and>
      3 \<le> pending_interrupt_queue_size s \<and>
      assertions_hold A \<and> assertions_hold B \<and> assertions_hold C \<longrightarrow>
        (\<exists>s'. run_calls [Inject A False, Inject B True, Inject C False,
                         Inject_pending, Inject_pending, Inject_pending] s = Inr s' \<and>
           pending_list s' = [] \<and>
           entry_info_writes (vmwrites s') =
             entry_info_writes (vmwrites s) @
               [ucast (info B), ucast (info A), ucast (info C)]))"
proof -
  let ?n = "pending_interrupt_queue_size s"
  have seq: "case engine_spec ?n cs (guest_interruptible s) (pending_list s) of
        None \<Rightarrow> (\<exists>err. run_calls cs s = Inl err)
      | Some (delivered, rest) \<Rightarrow>
          (\<exists>s'. run_calls cs s = Inr s' \<and> pending_list s' = rest \<and>
             entry_info_writes (vmwrites s') =
               entry_info_writes (vmwrites s) @ map (\<lambda>i. ucast (info i)) delivered)" for cs
    using run_calls_refines [OF assms, of cs]
    by (auto split: option.splits)
  have enq: "\<exists>s'. interrupt_inject e first s = Inr (False, s') \<and>
           pending_list s' = (if first then e # pending_list s else pending_list s @ [e])"
    if "\<not> guest_interruptible s \<and> pending_interrupt_count s < ?n"
    using inject_enqueues [OF assms, of e first] that by blast
  have deq: "\<exists>s2. interrupt_inject_pending s = interrupt_inject_force (hd (pending_list s)) s2 \<and>
           pending_list s2 = tl (pending_list s) \<and>
           vmcs s2 = vmcs s \<and> vmwrites s2 = vmwrites s"
    if "0 < pending_interrupt_count s"
    using inject_pending_delivers [OF assms that] by blast
  have abc: "\<exists>s'. run_calls [Inject A False, Inject B True, Inject C False,
                         Inject_pending, Inject_pending, Inject_pending] s = Inr s' \<and>
           pending_list s' = [] \<and>
           entry_info_writes (vmwrites s') =
             entry_info_writes (vmwrites s) @
               [ucast (info B), ucast (info A), ucast (info C)]"
    if h: "\<not> guest_interruptible s \<and> pending_interrupt_count s = 0 \<and> 3 \<le> ?n \<and>
        assertions_hold A \<and> assertions_hold B \<and> assertions_hold C"
  proof -
    from h have e: "pending_list s = []"
      by (simp add: pending_list_def)
    from h have "engine_spec ?n [Inject A False, Inject B True, Inject C False,
                         Inject_pending, Inject_pending, Inject_pending] (guest_interruptible s)
                   (pending_list s) = Some ([B, A, C], [])"
      by (simp add: e delivered_first_def)
    with seq [of "[Inject A False, Inject B True, Inject C False,
                         Inject_pending, Inject_pending, Inject_pending]"]
    show ?thesis
      by simp
  qed
  from seq enq deq abc show ?thesis
    by blast
qed

theorem pending_queue_order_witness:
  "queue_inv idle_vcpu \<and> \<not> guest_interruptible idle_vcpu \<and>
   pending_interrupt_count idle_vcpu = 0 \<and> 3 \<le> pending_interrupt_queue_size idle_vcpu \<and>
   assertions_hold ext_0x30 \<and> assertions_hold ext_0x31 \<and> assertions_hold ext_0x32 \<and>
   (\<exists>s'. run_calls [Inject ext_0x30 False, Inject ext_0x31 True, Inject ext_0x32 False,
                    Inject_pending, Inject_pending, Inject_pending] idle_vcpu = Inr s' \<and>
      pending_list s' = [] \<and>
      entry_info_writes (vmwrites s') = [0x80000031, 0x80000030, 0x80000032])"
proof -
  have i: "queue_inv idle_vcpu"
    by (simp add: queue_inv_def idle_vcpu_def pending_interrupt_queue_size_def)
  have h: "\<not> guest_interruptible idle_vcpu" "pending_interrupt_count idle_vcpu = 0"
    "3 \<le> pending_interrupt_queue_size idle_vcpu"
    by (simp_all add: guest_interruptible_def interrupt_enable_flag_def idle_vcpu_def
        pending_interrupt_queue_size_def)
  have a: "assertions_hold ext_0x30" "assertions_hold ext_0x31" "assertions_hold ext_0x32"
    by (simp_all add: assertions_hold_def ext_0x30_def ext_0x31_def ext_0x32_def type_def
        hardware_exception_def)
  have w: "entry_info_writes (vmwrites idle_vcpu) = []"
    by (simp add: idle_vcpu_def entry_info_writes_def)
  have v: "info ext_0x30 = 0x80000030" "info ext_0x31 = 0x80000031" "info ext_0x32 = 0x80000032"
    by (simp_all add: ext_0x30_def ext_0x31_def ext_0x32_def)
  show ?thesis
    using pending_queue_order [OF i, of _ _ _ ext_0x30 ext_0x31 ext_0x32] i h a
    by (simp add: w v)
qed

text \<open>
  C5. The pending-interrupt ring satisfies \<open>0 \<le> count \<le> queue_size\<close> and
  \<open>head \<in> [0, queue_size)\<close> in every state with a non-empty array, head 0 and count 0 (the
  ring of a fresh vCPU), after every \<open>interrupt_inject\<close> and every
  \<open>interrupt_inject_pending\<close> that returns, and so after every sequence of such calls. A
  call that enqueues returns only under the precondition \<open>count < queue_size\<close>, and
  \<open>interrupt_inject_pending\<close> only under \<open>count > 0\<close>; under these preconditions they do
  return (the dequeued event passing the assertions of \<open>interrupt_inject_force\<close>). After a
  dequeue the head is 0 when the count has reached 0 or the head has reached
  \<open>queue_size\<close>, and one more than before otherwise.
\<close>

theorem pending_queue_invariant:
  "queue_inv s = (0 \<le> pending_interrupt_count s \<and>
                  pending_interrupt_count s \<le> pending_interrupt_queue_size s \<and>
                  0 \<le> pending_interrupt_first s \<and>
                  pending_interrupt_first s < pending_interrupt_queue_size s) \<and>
   (pending_interrupt s \<noteq> [] \<and> pending_interrupt_first s = 0 \<and>
    pending_interrupt_count s = 0 \<longrightarrow> queue_inv s) \<and>
   (queue_inv s \<longrightarrow>
      (\<forall>injected s'. interrupt_inject e first s = Inr (injected, s') \<longrightarrow>
         queue_inv s' \<and>
         pending_interrupt_queue_size s' = pending_interrupt_queue_size s \<and>
         (if injected then pending_interrupt_count s' = pending_interrupt_count s
          else pending_interrupt_count s < pending_interrupt_queue_size s \<and>
               pending_interrupt_count s' = pending_interrupt_count s + 1)) \<and>
      (\<forall>s'. interrupt_inject_pending s = Inr s' \<longrightarrow>
         queue_inv s' \<and>
         pending_interrupt_queue_size s' = pending_interrupt_queue_size s \<and>
         0 < pending_interrupt_count s \<and>
         pending_interrupt_count s' = pending_interrupt_count s - 1 \<and>
         pending_interrupt_first s' =
           (if pending_interrupt_count s - 1 = 0 \<or>
               pending_interrupt_first s + 1 = pending_interrupt_queue_size s
            then 0 else pending_interrupt_first s + 1)) \<and>
      (\<not> guest_interruptible s \<and>
       pending_interrupt_count s < pending_interrupt_queue_size s \<longrightarrow>
         (\<exists>s'. interrupt_inject e first s = Inr (False, s'))) \<and>
      (0 < pending_interrupt_count s \<and> assertions_hold (hd (pending_list s)) \<longrightarrow>
         (\<exists>s'. interrupt_inject_pending s = Inr s')) \<and>
      (\<forall>s'. run_calls cs s = Inr s' \<longrightarrow> queue_inv s'))"
proof -
  let ?n = "pending_interrupt_queue_size s"
  have d: "queue_inv s = (0 \<le> pending_interrupt_count s \<and> pending_interrupt_count s \<le> ?n \<and>
                  0 \<le> pending_interrupt_first s \<and> pending_interrupt_first s < ?n)"
    by (simp add: queue_inv_def)
  have init: "queue_inv s"
    if "pending_interrupt s \<noteq> [] \<and> pending_interrupt_first s = 0 \<and>
        pending_interrupt_count s = 0"
    using that by (simp add: queue_inv_def pending_interrupt_queue_size_def)
  have inj: "queue_inv s' \<and> pending_interrupt_queue_size s' = ?n \<and>
         (if injected then pending_interrupt_count s' = pending_interrupt_count s
          else pending_interrupt_count s < ?n \<and>
               pending_interrupt_count s' = pending_interrupt_count s + 1)"
    if i: "queue_inv s" and r: "interrupt_inject e first s = Inr (injected, s')"
    for injected s'
  proof (cases "guest_interruptible s")
    case True
    from r obtain s1 where "interrupt_inject_force e s = Inr s1" "injected" "s' = s1"
      unfolding inject_immediate [OF True] by (auto split: sum.splits)
    with inject_force_frame [of e s s'] i show ?thesis
      by simp
  next
    case False
    from r have c: "pending_interrupt_count s < ?n"
      using inject_full_halts [OF False, of e first] by (cases "pending_interrupt_count s < ?n") auto
    from inject_enqueues [OF i False c, of e first] r c show ?thesis
      by auto
  qed
  have pend: "queue_inv s' \<and> pending_interrupt_queue_size s' = ?n \<and>
         0 < pending_interrupt_count s \<and>
         pending_interrupt_count s' = pending_interrupt_count s - 1 \<and>
         pending_interrupt_first s' =
           (if pending_interrupt_count s - 1 = 0 \<or> pending_interrupt_first s + 1 = ?n
            then 0 else pending_interrupt_first s + 1)"
    if i: "queue_inv s" and r: "interrupt_inject_pending s = Inr s'" for s'
  proof -
    from r have c: "0 < pending_interrupt_count s"
      using inject_pending_empty_halts [of s] by (cases "pending_interrupt_count s = 0") auto
    from inject_pending_delivers [OF i c] obtain s2 where
      s2: "interrupt_inject_pending s = interrupt_inject_force (hd (pending_list s)) s2"
        "queue_inv s2" "pending_interrupt_queue_size s2 = ?n"
        "pending_interrupt_count s2 = pending_interrupt_count s - 1"
        "pending_interrupt_first s2 =
           (if pending_interrupt_count s - 1 = 0 \<or> pending_interrupt_first s + 1 = ?n
            then 0 else pending_interrupt_first s + 1)"
      by blast
    from r s2(1) have "interrupt_inject_force (hd (pending_list s)) s2 = Inr s'"
      by simp
    from inject_force_frame [OF this] s2 c show ?thesis
      by simp
  qed
  have enq: "\<exists>s'. interrupt_inject e first s = Inr (False, s')"
    if "queue_inv s" and "\<not> guest_interruptible s \<and> pending_interrupt_count s < ?n"
    using inject_enqueues [of s e first] that by blast
  have deq: "\<exists>s'. interrupt_inject_pending s = Inr s'"
    if i: "queue_inv s"
      and h: "0 < pending_interrupt_count s \<and> assertions_hold (hd (pending_list s))"
  proof -
    from h have c: "0 < pending_interrupt_count s"
      by simp
    from inject_pending_delivers [OF i c] obtain s2 where
      "interrupt_inject_pending s = interrupt_inject_force (hd (pending_list s)) s2"
      by blast
    with inject_force_assertions(1) [of "hd (pending_list s)" s2] h show ?thesis
      by simp
  qed
  have run: "queue_inv s'" if i: "queue_inv s" and r: "run_calls cs s = Inr s'" for s'
    using run_calls_refines [OF i, of cs] r
    by (auto split: option.splits)
  from d init inj pend enq deq run show ?thesis
    by blast
qed

theorem pending_queue_invariant_witness:
  "queue_inv idle_vcpu \<and> \<not> guest_interruptible idle_vcpu \<and>
   pending_interrupt idle_vcpu \<noteq> [] \<and> pending_interrupt_first idle_vcpu = 0 \<and>
   pending_interrupt_count idle_vcpu = 0 \<and>
   pending_interrupt_count idle_vcpu < pending_interrupt_queue_size idle_vcpu \<and>
   (\<exists>s'. interrupt_inject ext_0x30 False idle_vcpu = Inr (False, s') \<and> queue_inv s' \<and>
      pending_interrupt_count s' = 1 \<and>
      (\<exists>s''. interrupt_inject_pending s' = Inr s'' \<and> queue_inv s'' \<and>
         pending_interrupt_count s'' = 0 \<and> pending_interrupt_first s'' = 0))"
proof -
  have i: "queue_inv idle_vcpu"
    by (simp add: queue_inv_def idle_vcpu_def pending_interrupt_queue_size_def)
  have h: "\<not> guest_interruptible idle_vcpu" "pending_interrupt_count idle_vcpu = 0"
    "pending_interrupt_count idle_vcpu < pending_interrupt_queue_size idle_vcpu"
    "pending_interrupt idle_vcpu \<noteq> []" "pending_interrupt_first idle_vcpu = 0"
    by (simp_all add: guest_interruptible_def interrupt_enable_flag_def idle_vcpu_def
        pending_interrupt_queue_size_def)
  note w1 = pending_queue_invariant [of idle_vcpu ext_0x30 False "[]"]
  from w1 i h
  obtain s' where s': "interrupt_inject ext_0x30 False idle_vcpu = Inr (False, s')"
    by blast
  from w1 i s' have "queue_inv s' \<and>
      pending_interrupt_count s' = pending_interrupt_count idle_vcpu + 1"
    by (auto split: if_splits)
  with h have q: "queue_inv s'" "pending_interrupt_count s' = 1"
    by simp_all
  have l: "pending_list s' = [ext_0x30]"
    using inject_enqueues [OF i h(1) h(3), of ext_0x30 False] s' h(2)
    by (auto simp add: pending_list_def)
  have a: "assertions_hold (hd (pending_list s'))"
    by (simp add: l assertions_hold_def ext_0x30_def type_def hardware_exception_def)
  note w2 = pending_queue_invariant [of s' ext_0x30 False "[]"]
  from w2 q a
  obtain s'' where s'': "interrupt_inject_pending s' = Inr s''"
    by auto
  from w2 q(1) s'' have "queue_inv s'' \<and>
      pending_interrupt_count s'' = pending_interrupt_count s' - 1 \<and>
      pending_interrupt_first s'' =
           (if pending_interrupt_count s' - 1 = 0 \<or>
               pending_interrupt_first s' + 1 = pending_interrupt_queue_size s'
            then 0 else pending_interrupt_first s' + 1)"
    by blast
  with q have "queue_inv s''" "pending_interrupt_count s'' = 0" "pending_interrupt_first s'' = 0"
    by simp_all
  with i h s' q s'' show ?thesis
    by auto
qed

subsection \<open>Injection\<close>

lemma interrupt_window_exiting_adjust:
  "interrupt_window_exiting (adjust c (interrupt_window_exiting_set True v) s) =
     bit (fixed1_mask (vmx_capability s c)) 2"
  by (simp add: interrupt_window_exiting_def interrupt_window_exiting_set_def adjust_def
      bit_simps)

text \<open>
  C1. For every call \<open>interrupt_inject(event, first)\<close>: if the guest is interruptible
  (interruptibility state 0 and RFLAGS.IF 1), the call performs
  \<open>interrupt_inject_force(event)\<close> and returns \<open>true\<close>. Otherwise, on a ring that satisfies
  its invariant and under the precondition \<open>count < queue_size\<close>, it enqueues the event at
  the front of the pending ring when \<open>first\<close> is true and at the back otherwise, sets
  \<open>interrupt_window_exiting\<close> in the processor-based controls and writes them back through
  \<open>adjust\<close>, and returns \<open>false\<close>. The flag then reads back as the capability mask
  \<open>fixed1_mask\<close> allows it.
\<close>

theorem interrupt_inject_behaviour:
  "guest_interruptible s =
     (guest_interruptibility_state_get s = 0 \<and> interrupt_enable_flag (exit_context_rflags s)) \<and>
   (guest_interruptible s \<longrightarrow>
      interrupt_inject e first s =
        (case interrupt_inject_force e s of
           Inl err \<Rightarrow> Inl err
         | Inr s' \<Rightarrow> Inr (True, s'))) \<and>
   (\<not> guest_interruptible s \<and> queue_inv s \<and>
    pending_interrupt_count s < pending_interrupt_queue_size s \<longrightarrow>
      (\<exists>s'. interrupt_inject e first s = Inr (False, s') \<and>
         pending_list s' = (if first then e # pending_list s else pending_list s @ [e]) \<and>
         pending_interrupt_count s' = pending_interrupt_count s + 1 \<and>
         pending_interrupt_first s' =
           (if first
            then (if pending_interrupt_first s = 0 then pending_interrupt_queue_size s - 1
                  else pending_interrupt_first s - 1)
            else pending_interrupt_first s) \<and>
         pending_interrupt s' =
           (pending_interrupt s)
             [(if first then pending_interrupt_first s'
               else (pending_interrupt_first s + pending_interrupt_count s)
                      mod pending_interrupt_queue_size s) := e] \<and>
         vmwrites s' = vmwrites s @
           [(ctrl_processor_based_vm_execution_controls,
             adjust procbased_ctls
               (interrupt_window_exiting_set True (processor_based_controls s)) s)] \<and>
         processor_based_controls s' =
           adjust procbased_ctls
             (interrupt_window_exiting_set True (processor_based_controls s)) s \<and>
         interrupt_window_exiting (interrupt_window_exiting_set True (processor_based_controls s)) \<and>
         interrupt_window_exiting (processor_based_controls s') =
           bit (fixed1_mask (vmx_capability s procbased_ctls)) 2))"
proof -
  let ?n = "pending_interrupt_queue_size s"
  let ?v = "adjust procbased_ctls
              (interrupt_window_exiting_set True (processor_based_controls s)) s"
  have enq: "\<exists>s'. interrupt_inject e first s = Inr (False, s') \<and>
         pending_list s' = (if first then e # pending_list s else pending_list s @ [e]) \<and>
         pending_interrupt_count s' = pending_interrupt_count s + 1 \<and>
         pending_interrupt_first s' =
           (if first
            then (if pending_interrupt_first s = 0 then ?n - 1
                  else pending_interrupt_first s - 1)
            else pending_interrupt_first s) \<and>
         pending_interrupt s' =
           (pending_interrupt s)
             [(if first then pending_interrupt_first s'
               else (pending_interrupt_first s + pending_interrupt_count s) mod ?n) := e] \<and>
         vmwrites s' = vmwrites s @ [(ctrl_processor_based_vm_execution_controls, ?v)] \<and>
         processor_based_controls s' = ?v \<and>
         interrupt_window_exiting (interrupt_window_exiting_set True (processor_based_controls s)) \<and>
         interrupt_window_exiting (processor_based_controls s') =
           bit (fixed1_mask (vmx_capability s procbased_ctls)) 2"
    if h: "\<not> guest_interruptible s \<and> queue_inv s \<and> pending_interrupt_count s < ?n"
  proof -
    from h have f: "pending_interrupt_first s < ?n" and c: "pending_interrupt_count s < ?n"
      and g: "guest_interruptibility_state_get s \<noteq> 0 \<or>
              \<not> interrupt_enable_flag (exit_context_rflags s)"
      by (simp_all add: queue_inv_def guest_interruptible_def)
    from inject_enqueues [of s e first] h obtain s' where
      r: "interrupt_inject e first s = Inr (False, s')" and
      l: "pending_list s' = (if first then e # pending_list s else pending_list s @ [e])" and
      k: "pending_interrupt_count s' = pending_interrupt_count s + 1" and
      w: "vmwrites s' = vmwrites s @ [(ctrl_processor_based_vm_execution_controls, ?v)]" and
      m: "vmcs s' = (vmcs s)(ctrl_processor_based_vm_execution_controls := ?v)"
      by blast
    have p: "processor_based_controls s' = ?v"
      by (simp add: processor_based_controls_def vmread_def m)
    have "0 < ?n"
      using c by linarith
    then have b: "(pending_interrupt_first s + pending_interrupt_count s) mod ?n < ?n"
      and b': "(if pending_interrupt_first s = 0 then ?n - 1 else pending_interrupt_first s - 1) < ?n"
      using f by auto
    have x: "pending_interrupt_first s' =
           (if first
            then (if pending_interrupt_first s = 0 then ?n - 1
                  else pending_interrupt_first s - 1)
            else pending_interrupt_first s) \<and>
         pending_interrupt s' =
           (pending_interrupt s)
             [(if first then pending_interrupt_first s'
               else (pending_interrupt_first s + pending_interrupt_count s) mod ?n) := e]"
      using r g c b b'
      by (auto simp add: interrupt_inject_def push_front_def push_back_def Let_def
          processor_based_controls_set_def split: if_splits)
    have y: "interrupt_window_exiting
               (interrupt_window_exiting_set True (processor_based_controls s))"
      by (simp add: interrupt_window_exiting_def interrupt_window_exiting_set_def bit_simps)
    from r l k x w p y show ?thesis
      by (simp add: interrupt_window_exiting_adjust)
  qed
  show ?thesis
    using enq inject_immediate [of s e first]
    by (simp add: guest_interruptible_def)
qed

theorem interrupt_inject_behaviour_witness:
  "guest_interruptible interruptible_vcpu \<and>
   interrupt_inject gp_0x42 False interruptible_vcpu =
     Inr (True, vmwrite ctrl_vmentry_exception_error_code 0x42
                 (vmwrite ctrl_vmentry_interruption_info 0x80000B0D interruptible_vcpu)) \<and>
   \<not> guest_interruptible idle_vcpu \<and> queue_inv idle_vcpu \<and>
   pending_interrupt_count idle_vcpu < pending_interrupt_queue_size idle_vcpu \<and>
   (\<exists>s'. interrupt_inject ext_0x30 False idle_vcpu = Inr (False, s') \<and>
      pending_list s' = [ext_0x30] \<and>
      pending_interrupt_count s' = 1 \<and>
      vmwrites s' = [(ctrl_processor_based_vm_execution_controls, 0x16)] \<and>
      interrupt_window_exiting (processor_based_controls s'))"
proof -
  have g: "guest_interruptible interruptible_vcpu"
    by (simp add: guest_interruptible_def interruptible_vcpu_def idle_vcpu_def
        guest_interruptibility_state_get_def vmread_def interrupt_enable_flag_def)
  have f: "interrupt_inject_force gp_0x42 interruptible_vcpu =
     Inr (vmwrite ctrl_vmentry_exception_error_code 0x42
           (vmwrite ctrl_vmentry_interruption_info 0x80000B0D interruptible_vcpu))"
    by (simp add: interrupt_inject_force_def inject_error_code_def
        inject_instruction_length_def entry_set_defs vector_defs type_defs gp_0x42_def
        valid_def type_def vector_def error_code_valid_def)
  have i: "queue_inv idle_vcpu"
    by (simp add: queue_inv_def idle_vcpu_def pending_interrupt_queue_size_def)
  have h: "\<not> guest_interruptible idle_vcpu"
    "pending_interrupt_count idle_vcpu < pending_interrupt_queue_size idle_vcpu"
    by (simp_all add: guest_interruptible_def interrupt_enable_flag_def idle_vcpu_def
        pending_interrupt_queue_size_def)
  have v: "pending_list idle_vcpu = []" "pending_interrupt_count idle_vcpu = 0"
    "vmwrites idle_vcpu = []"
    "adjust procbased_ctls
       (interrupt_window_exiting_set True (processor_based_controls idle_vcpu)) idle_vcpu = 0x16"
    "bit (fixed1_mask (vmx_capability idle_vcpu procbased_ctls)) 2"
    by (simp_all add: pending_list_def idle_vcpu_def adjust_def interrupt_window_exiting_set_def
        processor_based_controls_def vmread_def)
  from interrupt_inject_behaviour [of interruptible_vcpu gp_0x42 False] g f
  have a: "interrupt_inject gp_0x42 False interruptible_vcpu =
     Inr (True, vmwrite ctrl_vmentry_exception_error_code 0x42
                 (vmwrite ctrl_vmentry_interruption_info 0x80000B0D interruptible_vcpu))"
    by simp
  from interrupt_inject_behaviour [of idle_vcpu ext_0x30 False] i h v
  have b: "\<exists>s'. interrupt_inject ext_0x30 False idle_vcpu = Inr (False, s') \<and>
      pending_list s' = [ext_0x30] \<and>
      pending_interrupt_count s' = 1 \<and>
      vmwrites s' = [(ctrl_processor_based_vm_execution_controls, 0x16)] \<and>
      interrupt_window_exiting (processor_based_controls s')"
    by auto
  from g a h i b show ?thesis
    by blast
qed

end
